(* ===== verification/Zereh_Prelude.thy ===== *)
theory Zereh_Prelude
  imports Main "HOL-Library.Word"
begin

text \<open>
  The shared vocabulary of the development.

  \<^item> the machine integers of the sources (\<open>__u8\<close>/\<open>uint8_t\<close> and so on) as words of
    the same width, and the reads of a packet buffer that fault when they leave it;
  \<^item> \<open>cres\<close>, the outcome of a C function that returns an error code: the error path
    (\<open>return -1\<close>) is a value, and an out-of-bounds access is the separate value
    \<open>Fault\<close>, so that memory safety is a statement about the model;
  \<^item> the generic lemmas on lists and words that the component theories share, in the
    collections \<open>zereh_simps\<close> and \<open>cres_simps\<close>;
  \<^item> \<open>step_invariant\<close>, what a step relation and its initial states owe to a predicate for it
    to hold in every state of every run.
\<close>

unbundle bit_operations_syntax

named_theorems zereh_simps \<open>rewrite rules of the small operations of the sources\<close>
named_theorems cres_simps \<open>rewrite rules of the result type of fallible C functions\<close>

type_synonym u8 = "8 word"
type_synonym u16 = "16 word"
type_synonym u32 = "32 word"
type_synonym u64 = "64 word"
type_synonym bytes = "u8 list"

section \<open>Outcomes of C functions\<close>

datatype 'a cres = Fault | Err | Ret 'a

fun cres_bind :: "'a cres \<Rightarrow> ('a \<Rightarrow> 'b cres) \<Rightarrow> 'b cres" where
  "cres_bind Fault f = Fault"
| "cres_bind Err f = Err"
| "cres_bind (Ret x) f = f x"

lemma cres_bind_Ret_iff [cres_simps]:
  "cres_bind m f = Ret y \<longleftrightarrow> (\<exists>x. m = Ret x \<and> f x = Ret y)"
  by (cases m) auto

lemma cres_bind_Fault_iff [cres_simps]:
  "cres_bind m f = Fault \<longleftrightarrow> m = Fault \<or> (\<exists>x. m = Ret x \<and> f x = Fault)"
  by (cases m) auto

lemma cres_bind_cong [fundef_cong]:
  "m = m' \<Longrightarrow> (\<And>x. m' = Ret x \<Longrightarrow> f x = f' x) \<Longrightarrow> cres_bind m f = cres_bind m' f'"
  by (cases m') auto

lemma cres_not_FaultI:
  "m \<noteq> Fault \<Longrightarrow> (\<And>x. m = Ret x \<Longrightarrow> f x \<noteq> Fault) \<Longrightarrow> cres_bind m f \<noteq> Fault"
  by (cases m) auto

text \<open>
  A store at index \<open>i\<close> of an array of \<open>n\<close> elements, and the value of a call whose caller goes
  on without looking for a fault (unspecified if there is one).
\<close>

definition in_buf :: "nat \<Rightarrow> nat \<Rightarrow> unit cres" where
  "in_buf i n = (if i < n then Ret () else Fault)"

text \<open>Copying \<open>k\<close> elements to index \<open>i\<close> of an array of \<open>n\<close> elements.\<close>

definition copy_in_buf :: "nat \<Rightarrow> nat \<Rightarrow> nat \<Rightarrow> unit cres" where
  "copy_in_buf i k n = (if i + k \<le> n then Ret () else Fault)"

fun the_ret :: "'a cres \<Rightarrow> 'a" where
  "the_ret (Ret x) = x"

lemma in_buf_Ret [simp]: "i < n \<Longrightarrow> in_buf i n = Ret ()"
  by (simp add: in_buf_def)

section \<open>Packet buffers\<close>

text \<open>
  A packet is the byte list between \<open>data\<close> and \<open>data_end\<close>; a pointer into it is an
  offset. Loads of several bytes are native loads of the little-endian targets the
  compiler driver selects (\<open>-D__TARGET_ARCH_x86\<close>); network order is recovered, as in
  the sources, with \<open>bpf_ntohs\<close>.
\<close>

definition ld8 :: "bytes \<Rightarrow> nat \<Rightarrow> u8 cres" where
  "ld8 pkt i = (if i < length pkt then Ret (pkt ! i) else Fault)"

definition ld16 :: "bytes \<Rightarrow> nat \<Rightarrow> u16 cres" where
  "ld16 pkt i = cres_bind (ld8 pkt i) (\<lambda>lo. cres_bind (ld8 pkt (i + 1)) (\<lambda>hi.
     Ret ((ucast lo :: u16) OR push_bit 8 (ucast hi))))"

definition ld32 :: "bytes \<Rightarrow> nat \<Rightarrow> u32 cres" where
  "ld32 pkt i = cres_bind (ld16 pkt i) (\<lambda>lo. cres_bind (ld16 pkt (i + 2)) (\<lambda>hi.
     Ret ((ucast lo :: u32) OR push_bit 16 (ucast hi))))"

definition st16 :: "bytes \<Rightarrow> nat \<Rightarrow> u16 \<Rightarrow> bytes cres" where
  "st16 pkt i v = (if i + 1 < length pkt
     then Ret (pkt[i := (ucast v :: u8), i + 1 := (ucast (drop_bit 8 v) :: u8)])
     else Fault)"

definition st32 :: "bytes \<Rightarrow> nat \<Rightarrow> u32 \<Rightarrow> bytes cres" where
  "st32 pkt i v = cres_bind (st16 pkt i (ucast v))
     (\<lambda>p. st16 p (i + 2) (ucast (drop_bit 16 v)))"

definition bpf_ntohs :: "u16 \<Rightarrow> u16" where
  "bpf_ntohs v = push_bit 8 v OR drop_bit 8 v"

abbreviation (input) bpf_htons :: "u16 \<Rightarrow> u16" where
  "bpf_htons \<equiv> bpf_ntohs"

text \<open>
  \<open>bytes_at pkt i w\<close>: the packet holds the bytes \<open>w\<close> at offset \<open>i\<close>; \<open>be16 v\<close>: a
  16-bit value in network order.
\<close>

lemma ld8_not_Fault [simp]: "ld8 pkt i = Fault \<longleftrightarrow> length pkt \<le> i"
  by (auto simp: ld8_def)
lemma ld8_not_Err [simp]: "ld8 pkt i \<noteq> Err"
  by (auto simp: ld8_def)
lemma ld8_Ret_iff: "ld8 pkt i = Ret b \<longleftrightarrow> i < length pkt \<and> b = pkt ! i"
  by (auto simp: ld8_def)

lemma ld16_Fault_iff [simp]: "ld16 pkt i = Fault \<longleftrightarrow> length pkt \<le> i + 1"
  by (auto simp: ld16_def ld8_def)
lemma ld32_Fault_iff [simp]: "ld32 pkt i = Fault \<longleftrightarrow> length pkt \<le> i + 3"
  by (auto simp: ld32_def ld16_def ld8_def)

definition bytes_at :: "bytes \<Rightarrow> nat \<Rightarrow> bytes \<Rightarrow> bool" where
  "bytes_at pkt i w \<longleftrightarrow> i + length w \<le> length pkt \<and> take (length w) (drop i pkt) = w"

lemma bytes_at_append: "bytes_at pkt i (u @ w) \<longleftrightarrow> bytes_at pkt i u \<and> bytes_at pkt (i + length u) w"
  by (auto simp: bytes_at_def take_add add.assoc) (metis add.commute drop_drop)+

lemma bytes_at_Cons: "bytes_at pkt i (b # w) \<longleftrightarrow> i < length pkt \<and> pkt ! i = b \<and> bytes_at pkt (Suc i) w"
  by (auto simp: bytes_at_def take_Suc_conv_app_nth Cons_nth_drop_Suc [symmetric])

lemma bytes_at_Nil: "bytes_at pkt i [] \<longleftrightarrow> i \<le> length pkt"
  by (simp add: bytes_at_def)

definition be16 :: "u16 \<Rightarrow> bytes" where
  "be16 v = [ucast (drop_bit 8 v), ucast v]"

lemma bpf_ntohs_ntohs [simp]: "bpf_ntohs (bpf_ntohs v) = v"
  unfolding bpf_ntohs_def by (rule bit_word_eqI) (auto simp: bit_simps)

lemma le16_swap: "(ucast (ucast (drop_bit 8 v) :: u8) OR push_bit 8 (ucast (ucast v :: u8))) = bpf_ntohs v"
  unfolding bpf_ntohs_def
  by (rule bit_word_eqI) (auto simp: bit_simps less_diff_conv2 dest: bit_imp_le_length)

lemma be16_swap: "be16 (bpf_ntohs (ucast a OR push_bit 8 (ucast b))) = [a, b]"
  unfolding be16_def bpf_ntohs_def
  using bit_imp_le_length [of a]
  by (auto intro!: bit_word_eqI simp: bit_simps) (metis not_add_less1 less_trans numeral_less_iff semiring_norm)+

lemma ld16_be16: "bytes_at pkt i (be16 v) \<Longrightarrow> ld16 pkt i = Ret (bpf_ntohs v)"
  by (auto simp: be16_def bytes_at_Cons bytes_at_Nil ld16_def ld8_def le16_swap)

lemma ld16_Ret: "ld16 pkt i = Ret w \<Longrightarrow> bytes_at pkt i (be16 (bpf_ntohs w))"
  by (auto simp: be16_swap bytes_at_Cons bytes_at_Nil ld16_def ld8_def split: if_splits)

lemma length_be16 [simp]: "length (be16 v) = 2"
  by (simp add: be16_def)

lemma ld16_ex: "i + 1 < length pkt \<Longrightarrow> \<exists>v. ld16 pkt i = Ret v"
  by (simp add: ld16_def ld8_def)

lemma ld16_Ret_iff: "ld16 pkt i = Ret w \<longleftrightarrow> bytes_at pkt i (be16 (bpf_ntohs w))"
  using ld16_Ret ld16_be16 [of pkt i "bpf_ntohs w"] by auto

section \<open>Stores into the packet\<close>

lemma cres_bind_Ret_simp [simp]: "cres_bind m Ret = m"
  by (cases m) auto

lemma st16_Ret: "i + 1 < length pkt \<Longrightarrow> \<exists>pkt'. st16 pkt i v = Ret pkt'"
  by (simp add: st16_def)

lemma st16_length: "st16 pkt i v = Ret pkt' \<Longrightarrow> length pkt' = length pkt"
  by (auto simp: st16_def split: if_splits)

lemma st16_nth: "st16 pkt i v = Ret pkt' \<Longrightarrow> k \<noteq> i \<Longrightarrow> k \<noteq> i + 1 \<Longrightarrow> pkt' ! k = pkt ! k"
  by (auto simp: st16_def split: if_splits)

lemma split16: "(ucast (ucast v :: u8) OR push_bit 8 (ucast (ucast (drop_bit 8 v) :: u8))) = (v :: u16)"
  by (rule bit_word_eqI) (auto simp: bit_simps less_diff_conv2)

lemma ld16_st16: "st16 pkt i v = Ret pkt' \<Longrightarrow> ld16 pkt' i = Ret v"
  by (auto simp: st16_def ld16_def ld8_def split16 split: if_splits)

lemma ld16_cong:
  "length p = length q \<Longrightarrow> p ! i = q ! i \<Longrightarrow> p ! (i + 1) = q ! (i + 1) \<Longrightarrow> ld16 p i = ld16 q i"
  by (simp add: ld16_def ld8_def)

lemma ld16_st16_other:
  "st16 pkt i v = Ret pkt' \<Longrightarrow> j + 1 < i \<or> i + 1 < j \<Longrightarrow> ld16 pkt' j = ld16 pkt j"
  using st16_length st16_nth by (intro ld16_cong) auto

lemma split32: "(ucast (ucast v :: u16) OR push_bit 16 (ucast (ucast (drop_bit 16 v) :: u16))) = (v :: u32)"
  by (rule bit_word_eqI) (auto simp: bit_simps less_diff_conv2)

lemma ld32_ex: "i + 3 < length pkt \<Longrightarrow> \<exists>v. ld32 pkt i = Ret v"
  using ld16_ex [of i pkt] ld16_ex [of "i + 2" pkt] by (auto simp: ld32_def)

lemma ld32_cong:
  assumes "length p = length q" and "\<And>k. i \<le> k \<Longrightarrow> k < i + 4 \<Longrightarrow> p ! k = q ! k"
  shows "ld32 p i = ld32 q i"
  unfolding ld32_def using ld16_cong [of p q i] ld16_cong [of p q "i + 2"] assms by simp

lemma st32_spec:
  assumes "i + 3 < length pkt"
  obtains pkt' where "st32 pkt i v = Ret pkt'" "length pkt' = length pkt" "ld32 pkt' i = Ret v"
    "\<And>k. k < i \<or> i + 3 < k \<Longrightarrow> pkt' ! k = pkt ! k"
proof -
  obtain p1 where p1: "st16 pkt i (ucast v) = Ret p1" using st16_Ret [of i pkt] assms by auto
  obtain p2 where p2: "st16 p1 (i + 2) (ucast (drop_bit 16 v)) = Ret p2"
    using st16_Ret [of "i + 2" p1] st16_length [OF p1] assms by auto
  have "ld16 p2 i = Ret (ucast v)" using ld16_st16_other [OF p2, of i] ld16_st16 [OF p1] by simp
  moreover have "ld16 p2 (i + 2) = Ret (ucast (drop_bit 16 v))" using ld16_st16 [OF p2] .
  ultimately have "ld32 p2 i = Ret v" by (simp add: ld32_def split32)
  moreover have "p2 ! k = pkt ! k" if "k < i \<or> i + 3 < k" for k
    using that st16_nth [OF p1, of k] st16_nth [OF p2, of k] by auto
  ultimately show thesis
    using that [of p2] p1 p2 st16_length [OF p1] st16_length [OF p2] by (simp add: st32_def)
qed

section \<open>Invariants of step relations\<close>

locale step_invariant =
  fixes step :: "'s \<Rightarrow> 's \<Rightarrow> bool" and start :: "'s \<Rightarrow> bool" and inv :: "'s \<Rightarrow> bool"
  assumes start_inv: "start s \<Longrightarrow> inv s"
    and step_inv: "inv s \<Longrightarrow> step s t \<Longrightarrow> inv t"
begin

lemma runs_inv: "step\<^sup>*\<^sup>* s t \<Longrightarrow> inv s \<Longrightarrow> inv t"
  by (induction rule: rtranclp_induct) (auto intro: step_inv)

lemma reached_inv: "start s \<Longrightarrow> step\<^sup>*\<^sup>* s t \<Longrightarrow> inv t"
  by (blast intro: start_inv runs_inv)

end

end
