(* ===== verification/Zereh_Libc.thy ===== *)
theory Zereh_Libc
  imports Zereh_Prelude
begin

text \<open>
  What the sources use of the C library. A C string is the \<open>string\<close> of its characters
  before the terminating NUL. The locale is "C": no source calls \<open>setlocale\<close>, so
  \<open>tolower\<close> and the classification macros are the ASCII ones.

  The lemmas give the decimal round trip (\<open>strtoul10_dec\<close>: reading back what \<open>%u\<close>
  prints), and the laws of the case-insensitive comparison.
\<close>

section \<open>Characters and bytes\<close>

definition byte_of :: "char \<Rightarrow> u8" where
  "byte_of c = of_nat (of_char c)"

definition bytes_of :: "string \<Rightarrow> bytes" where
  "bytes_of s = map byte_of s"

definition c_tolower :: "char \<Rightarrow> char" where
  "c_tolower c = (if 65 \<le> (of_char c :: nat) \<and> (of_char c :: nat) \<le> 90
                  then char_of ((of_char c :: nat) + 32) else c)"

definition c_isspace :: "char \<Rightarrow> bool" where
  "c_isspace c \<longleftrightarrow> c = CHR '' '' \<or> (9 \<le> (of_char c :: nat) \<and> (of_char c :: nat) \<le> 13)"

definition c_isdigit :: "char \<Rightarrow> bool" where
  "c_isdigit c \<longleftrightarrow> 48 \<le> (of_char c :: nat) \<and> (of_char c :: nat) \<le> 57"

section \<open>String functions\<close>

text \<open>The C string that starts at a buffer: up to the first NUL.\<close>

definition cstr :: "string \<Rightarrow> string" where
  "cstr v = takeWhile (\<lambda>c. c \<noteq> CHR 0x00) v"

text \<open>\<open>snprintf (buf, sz, "%s", s)\<close> leaves at most \<open>sz - 1\<close> characters in the buffer.\<close>

definition snprintf_s :: "nat \<Rightarrow> string \<Rightarrow> string" where
  "snprintf_s sz s = take (sz - 1) s"

text \<open>\<open>strcasecmp (s, t) == 0\<close>\<close>

definition strcasecmp :: "string \<Rightarrow> string \<Rightarrow> bool" where
  "strcasecmp s t \<longleftrightarrow> map c_tolower s = map c_tolower t"

definition digits_val :: "string \<Rightarrow> nat" where
  "digits_val ds = foldl (\<lambda>a c. 10 * a + (of_char c - 48)) 0 ds"

text \<open>
  The sign and the digits that \<open>strtoul\<close> and \<open>strtol\<close> read after the leading white
  space: (negative, the text after the sign).
\<close>

definition strto_sign :: "string \<Rightarrow> bool \<times> string" where
  "strto_sign t = (case t of [] \<Rightarrow> (False, [])
     | c # r \<Rightarrow> if c = CHR ''-'' then (True, r)
               else if c = CHR ''+'' then (False, r) else (False, c # r))"

text \<open>
  \<open>strtoul (s, &end, 10)\<close>: the value and the text at \<open>end\<close>. Without a digit nothing
  is converted and \<open>end\<close> is \<open>s\<close>; a value above \<open>ULONG_MAX\<close> is clamped to it; a
  minus sign negates in \<open>unsigned long\<close>.
\<close>

definition strtoul10 :: "string \<Rightarrow> u64 \<times> string" where
  "strtoul10 s = (let (neg, u) = strto_sign (dropWhile c_isspace s);
                      ds = takeWhile c_isdigit u; n = digits_val ds
     in if ds = [] then (0, s)
        else (if n \<ge> 2 ^ 64 then - 1 else if neg then - of_nat n else of_nat n,
              dropWhile c_isdigit u))"

text \<open>\<open>strtol (s, &end, 10)\<close>, clamped to the range of a 64-bit \<open>long\<close>.\<close>

definition strtol10 :: "string \<Rightarrow> int \<times> string" where
  "strtol10 s = (let (neg, u) = strto_sign (dropWhile c_isspace s);
                     ds = takeWhile c_isdigit u; n = int (digits_val ds)
     in if ds = [] then (0, s)
        else (if neg then max (- (2 ^ 63)) (- n) else min (2 ^ 63 - 1) n,
              dropWhile c_isdigit u))"

text \<open>The \<open>%u\<close> conversion, and \<open>%x\<close> with a minimum width padded with zeros.\<close>

fun dec_of :: "nat \<Rightarrow> string" where
  "dec_of n = (if n < 10 then [char_of (n + 48)] else dec_of (n div 10) @ [char_of (n mod 10 + 48)])"

declare dec_of.simps [simp del]

definition hex_digit :: "nat \<Rightarrow> char" where
  "hex_digit d = (if d < 10 then char_of (d + 48) else char_of (d + 87))"

fun hex_of :: "nat \<Rightarrow> string" where
  "hex_of n = (if n < 16 then [hex_digit n] else hex_of (n div 16) @ [hex_digit (n mod 16)])"

declare hex_of.simps [simp del]

definition hex_pad :: "nat \<Rightarrow> nat \<Rightarrow> string" where
  "hex_pad w n = replicate (w - length (hex_of n)) (CHR ''0'') @ hex_of n"

section \<open>Sequences of fallible statements\<close>

text \<open>
  A statement that may make the enclosing function return \<open>-1\<close> is a function from the
  state to the new state and whether execution goes on. The state is kept on the error
  path too: what was written before the \<open>return -1\<close> stays written.
\<close>

type_synonym 's act = "'s \<Rightarrow> 's \<times> bool"

fun run_steps :: "'s act list \<Rightarrow> 's act" where
  "run_steps [] s = (s, True)"
| "run_steps (f # fs) s = (case f s of (s', ok) \<Rightarrow> if ok then run_steps fs s' else (s', False))"

section \<open>Lemmas\<close>

lemma byte_of_eq_iff [simp]: "byte_of c = byte_of d \<longleftrightarrow> c = d"
proof
  assume "byte_of c = byte_of d"
  then have "unat (byte_of c) = unat (byte_of d)" by simp
  then show "c = d"
    by (simp add: byte_of_def unat_of_nat)
qed simp

lemma unat_byte_of [simp]: "unat (byte_of c) = of_char c"
  by (simp add: byte_of_def unat_of_nat)

lemma length_bytes_of [simp]: "length (bytes_of s) = length s"
  by (simp add: bytes_of_def)

lemma bytes_of_append [simp]: "bytes_of (s @ t) = bytes_of s @ bytes_of t"
  by (simp add: bytes_of_def)

lemma bytes_of_take: "bytes_of (take n s) = take n (bytes_of s)"
  by (simp add: bytes_of_def take_map)

lemma bytes_of_eq_iff [simp]: "bytes_of s = bytes_of t \<longleftrightarrow> s = t"
  unfolding bytes_of_def by (simp add: inj_map_eq_map inj_def)

lemma c_tolower_idem [simp]: "c_tolower (c_tolower c) = c_tolower c"
  by (simp add: c_tolower_def)

lemma cstr_no_NUL: "CHR 0x00 \<notin> set (cstr v)"
  by (auto simp: cstr_def dest: set_takeWhileD)

lemma cstr_id: "CHR 0x00 \<notin> set v \<Longrightarrow> cstr v = v"
  unfolding cstr_def by (simp add: takeWhile_eq_all_conv) metis

lemma length_snprintf_s: "0 < sz \<Longrightarrow> length (snprintf_s sz s) < sz"
  by (simp add: snprintf_s_def)

lemma snprintf_s_fits: "length s < sz \<Longrightarrow> snprintf_s sz s = s"
  by (simp add: snprintf_s_def)

lemma set_snprintf_s: "set (snprintf_s sz s) \<subseteq> set s"
  by (simp add: snprintf_s_def set_take_subset)

lemma strcasecmp_refl [simp]: "strcasecmp s s"
  by (simp add: strcasecmp_def)

lemma strcasecmp_sym: "strcasecmp s t \<Longrightarrow> strcasecmp t s"
  by (simp add: strcasecmp_def)

lemma strcasecmp_trans: "strcasecmp s t \<Longrightarrow> strcasecmp t u \<Longrightarrow> strcasecmp s u"
  by (simp add: strcasecmp_def)

lemma strcasecmp_cong: "strcasecmp s t \<Longrightarrow> strcasecmp s k \<longleftrightarrow> strcasecmp t k"
  by (simp add: strcasecmp_def)

subsection \<open>Decimal numbers\<close>

lemma digits_val_snoc: "digits_val (ds @ [c]) = 10 * digits_val ds + (of_char c - 48)"
  by (simp add: digits_val_def)

lemma c_isdigit_char_of: "d < (10::nat) \<Longrightarrow> c_isdigit (char_of (d + 48))"
  by (simp add: c_isdigit_def)

lemma dec_of_nonempty [simp]: "dec_of n \<noteq> []"
  by (subst dec_of.simps) simp

lemma dec_of_digits: "\<forall>c \<in> set (dec_of n). c_isdigit c"
proof (induction n rule: dec_of.induct)
  case (1 n)
  then show ?case
    by (subst dec_of.simps) (auto simp: c_isdigit_char_of)
qed

lemma digits_val_dec_of: "digits_val (dec_of n) = n"
proof (induction n rule: dec_of.induct)
  case (1 n)
  then show ?case
    by (subst dec_of.simps) (simp add: digits_val_snoc digits_val_def)
qed

lemma digit_not_space: "c_isdigit c \<Longrightarrow> \<not> c_isspace c"
  by (auto simp: c_isdigit_def c_isspace_def)

lemma digit_not_sign: "c_isdigit c \<Longrightarrow> c \<noteq> CHR ''-'' \<and> c \<noteq> CHR ''+''"
  by (auto simp: c_isdigit_def)

lemma strto_sign_digit: "c_isdigit c \<Longrightarrow> strto_sign (c # r) = (False, c # r)"
  using digit_not_sign by (auto simp: strto_sign_def)

lemma strtoul10_digits:
  assumes "ds \<noteq> []" and "\<forall>c \<in> set ds. c_isdigit c" and "digits_val ds < 2 ^ 64"
  shows "strtoul10 ds = (of_nat (digits_val ds), [])"
proof -
  from assms(1,2) obtain c r where ds: "ds = c # r" and c: "c_isdigit c"
    by (cases ds) auto
  have sp: "dropWhile c_isspace ds = ds"
    using ds c digit_not_space by simp
  have tw: "takeWhile c_isdigit ds = ds" and dw: "dropWhile c_isdigit ds = []"
    using assms(2) by auto
  show ?thesis
    using assms(1,3) strto_sign_digit [OF c] ds tw dw sp
    by (simp add: strtoul10_def)
qed

text \<open>Reading back what the \<open>%u\<close> conversion printed gives the number again.\<close>

lemma strtoul10_dec: "n < 2 ^ 64 \<Longrightarrow> strtoul10 (dec_of n) = (of_nat n, [])"
  using strtoul10_digits [of "dec_of n"] dec_of_digits digits_val_dec_of by simp

subsection \<open>Sequences of statements\<close>

lemma run_steps_append:
  "run_steps (fs @ gs) s = (case run_steps fs s of (s', ok) \<Rightarrow> if ok then run_steps gs s' else (s', False))"
  by (induction fs arbitrary: s) (auto split: prod.splits)

text \<open>
  What every statement keeps, the sequence keeps, on the error path too; what only the
  successful statements establish holds after a successful run.
\<close>

lemma run_steps_inv:
  assumes "\<And>f s. f \<in> set fs \<Longrightarrow> I s \<Longrightarrow> I (fst (f s))" and "I s"
  shows "I (fst (run_steps fs s))"
  using assms
proof (induction fs arbitrary: s)
  case (Cons f fs)
  have "I (fst (f s))" using Cons.prems by simp
  then show ?case
    using Cons.IH [of "fst (f s)"] Cons.prems(1) by (auto split: prod.splits)
qed simp

lemma run_steps_frame:
  assumes "\<And>f s. f \<in> set fs \<Longrightarrow> P (fst (f s)) = P s"
  shows "P (fst (run_steps fs s)) = P s"
  using assms
proof (induction fs arbitrary: s)
  case (Cons f fs)
  then show ?case
    using Cons.IH [of "fst (f s)"] by (auto split: prod.splits) (metis fst_conv list.set_intros(1))+
qed simp

lemma run_steps_Cons_ok:
  "snd (run_steps (f # fs) s) \<longleftrightarrow> snd (f s) \<and> snd (run_steps fs (fst (f s)))"
  by (auto split: prod.splits)

end
