(* ===== verification/Zereh_Config.thy ===== *)
theory Zereh_Config
  imports Zereh_Libc
begin

text \<open>
  The configuration model of \<open>control/config.h\<close> and \<open>control/config.c\<close>: the enums
  with the source's constructors, \<open>struct zereh_route\<close> and \<open>struct zereh_config\<close> as
  records (fields prefixed \<open>r_\<close> and \<open>c_\<close>; an array with its count is the list of
  its used entries, a character buffer is the C string it holds), the defaults, and the
  well-formedness \<open>config_wf\<close> that the YAML parser establishes and the code generator
  and the loader rely on.
\<close>

section \<open>Enumerations\<close>

datatype zereh_target_type =
    ZEREH_TARGET_USER_SPACE | ZEREH_TARGET_KERNEL_SPACE | ZEREH_TARGET_XDP_PROG

datatype zereh_default_action = ZEREH_ACTION_PASS | ZEREH_ACTION_DROP

datatype zereh_xdp_mode = ZEREH_XDP_MODE_NATIVE | ZEREH_XDP_MODE_SKB | ZEREH_XDP_MODE_OFFLOAD

datatype zereh_hash_algorithm = ZEREH_HASH_FNV1A | ZEREH_HASH_SIPHASH

definition ZEREH_RRTYPE_A :: u32 where "ZEREH_RRTYPE_A = push_bit 0 1"
definition ZEREH_RRTYPE_AAAA :: u32 where "ZEREH_RRTYPE_AAAA = push_bit 1 1"
definition ZEREH_RRTYPE_TXT :: u32 where "ZEREH_RRTYPE_TXT = push_bit 2 1"
definition ZEREH_RRTYPE_ANY :: u32 where "ZEREH_RRTYPE_ANY = push_bit 3 1"

lemmas rrtype_defs =
  ZEREH_RRTYPE_A_def ZEREH_RRTYPE_AAAA_def ZEREH_RRTYPE_TXT_def ZEREH_RRTYPE_ANY_def

abbreviation (input) "ZEREH_MAX_ROUTES \<equiv> (1024 :: nat)"
abbreviation (input) "ZEREH_MAX_BLACKLIST \<equiv> (1024 :: nat)"
abbreviation (input) "ZEREH_MAX_DOMAIN_LEN \<equiv> (255 :: nat)"
abbreviation (input) "ZEREH_MAX_PATTERN_LEN \<equiv> (128 :: nat)"
abbreviation (input) "ZEREH_MAX_CIDR_LEN \<equiv> (64 :: nat)"
abbreviation (input) "ZEREH_MAX_HASH_ALGO_LEN \<equiv> (32 :: nat)"
abbreviation (input) "ZEREH_MAX_BLOOM_SEEDS \<equiv> (32 :: nat)"
abbreviation (input) "ZEREH_MAX_PROG_NAME \<equiv> (64 :: nat)"
abbreviation (input) "IFNAMSIZ \<equiv> (16 :: nat)"
abbreviation (input) "PATH_MAX \<equiv> (4096 :: nat)"

section \<open>Records\<close>

record zereh_route =
  r_domain :: string
  r_hash :: u64
  r_target :: zereh_target_type
  r_xsk_queue :: u32
  r_kernel_port :: u16
  r_prog_index :: u32
  r_prog_name :: string
  r_prefix :: string
  r_suffix :: string
  r_min_labels :: u8
  r_max_labels :: u8
  r_qname_min_len :: u16
  r_qname_max_len :: u16
  r_rrtype_mask :: u32
  r_pow_enabled :: u8
  r_pow_difficulty :: u8
  r_pow_time_window :: u16
  r_bloom_enabled :: u8
  r_bloom_size :: u32
  r_bloom_hash_functions :: u8
  r_bloom_time_window :: u16
  r_bloom_seeds :: "string list"
  r_rate_limit_qps :: u32

record zereh_config =
  c_interface :: string
  c_template_path :: string
  c_generated_source :: string
  c_generated_object :: string
  c_xdp_section :: string
  c_xdp_mode :: zereh_xdp_mode
  c_default_action :: zereh_default_action
  c_max_packet_size :: u32
  c_default_kernel_port :: u16
  c_allowed_opcode_mask :: u16
  c_drop_truncated :: u8
  c_hash_algorithm :: string
  c_hash_algo :: zereh_hash_algorithm
  c_optimize_jump_tables :: u8
  c_inline_checksums :: u8
  c_blacklist :: "string list"
  c_routes :: "zereh_route list"

section \<open>Defaults\<close>

definition zereh_config_init_defaults :: zereh_config where
  "zereh_config_init_defaults = \<lparr>
     c_interface = snprintf_s IFNAMSIZ ''eth0'',
     c_template_path = snprintf_s PATH_MAX ''xdp/xdp_template.c'',
     c_generated_source = snprintf_s PATH_MAX ''build/xdp/router_generated.c'',
     c_generated_object = snprintf_s PATH_MAX ''build/xdp/router_generated.o'',
     c_xdp_section = snprintf_s 64 ''xdp_router'',
     c_xdp_mode = ZEREH_XDP_MODE_NATIVE,
     c_default_action = ZEREH_ACTION_PASS,
     c_max_packet_size = 1400,
     c_default_kernel_port = 5302,
     c_allowed_opcode_mask = push_bit 0 1,
     c_drop_truncated = 0,
     c_hash_algorithm = snprintf_s ZEREH_MAX_HASH_ALGO_LEN ''FNV-1a'',
     c_hash_algo = ZEREH_HASH_FNV1A,
     c_optimize_jump_tables = 1,
     c_inline_checksums = 1,
     c_blacklist = [],
     c_routes = []\<rparr>"

section \<open>Well-formed routes and configurations\<close>

text \<open>
  Every character buffer holds a terminated string that fits it, and the numeric fields
  are within the limits that \<open>zereh_parse_route\<close> checks.
\<close>

definition fits :: "nat \<Rightarrow> string \<Rightarrow> bool" where
  "fits sz s \<longleftrightarrow> length s < sz \<and> CHR 0x00 \<notin> set s"

definition route_buffers_ok :: "zereh_route \<Rightarrow> bool" where
  "route_buffers_ok r \<longleftrightarrow>
     fits (ZEREH_MAX_DOMAIN_LEN + 1) (r_domain r) \<and>
     fits ZEREH_MAX_PROG_NAME (r_prog_name r) \<and>
     fits (ZEREH_MAX_PATTERN_LEN + 1) (r_prefix r) \<and>
     fits (ZEREH_MAX_PATTERN_LEN + 1) (r_suffix r) \<and>
     length (r_bloom_seeds r) \<le> ZEREH_MAX_BLOOM_SEEDS \<and>
     list_all (fits (ZEREH_MAX_DOMAIN_LEN + 1)) (r_bloom_seeds r)"

definition route_limits_ok :: "zereh_route \<Rightarrow> bool" where
  "route_limits_ok r \<longleftrightarrow>
     0 < r_min_labels r \<and> r_min_labels r \<le> r_max_labels r \<and> r_max_labels r \<le> 127 \<and>
     0 < r_qname_min_len r \<and> r_qname_min_len r \<le> r_qname_max_len r \<and>
     r_qname_max_len r \<le> 255 \<and>
     r_rrtype_mask r \<noteq> 0 \<and> r_pow_difficulty r \<le> 63 \<and>
     (r_pow_enabled r = 0 \<longrightarrow> r_pow_difficulty r = 0 \<and> r_pow_time_window r = 0) \<and>
     (if r_bloom_enabled r = 0
      then r_bloom_size r = 0 \<and> r_bloom_hash_functions r = 0 \<and> r_bloom_seeds r = []
      else 64 \<le> r_bloom_size r \<and> r_bloom_size r \<le> 65536 \<and>
           0 < r_bloom_hash_functions r \<and> r_bloom_hash_functions r \<le> 8 \<and>
           r_bloom_seeds r \<noteq> [])"

definition route_wf :: "zereh_route \<Rightarrow> bool" where
  "route_wf r \<longleftrightarrow> route_buffers_ok r \<and> route_limits_ok r \<and> r_domain r \<noteq> []"

definition config_buffers_ok :: "zereh_config \<Rightarrow> bool" where
  "config_buffers_ok c \<longleftrightarrow>
     fits IFNAMSIZ (c_interface c) \<and> fits PATH_MAX (c_template_path c) \<and>
     fits PATH_MAX (c_generated_source c) \<and> fits PATH_MAX (c_generated_object c) \<and>
     fits 64 (c_xdp_section c) \<and> fits ZEREH_MAX_HASH_ALGO_LEN (c_hash_algorithm c) \<and>
     length (c_blacklist c) \<le> ZEREH_MAX_BLACKLIST \<and>
     list_all (fits ZEREH_MAX_CIDR_LEN) (c_blacklist c)"

definition config_wf :: "zereh_config \<Rightarrow> bool" where
  "config_wf c \<longleftrightarrow> config_buffers_ok c \<and> length (c_routes c) \<le> ZEREH_MAX_ROUTES \<and>
     list_all route_wf (c_routes c)"

lemma fits_snprintf_s [intro]: "0 < sz \<Longrightarrow> CHR 0x00 \<notin> set s \<Longrightarrow> fits sz (snprintf_s sz s)"
  unfolding fits_def using length_snprintf_s set_snprintf_s by blast

lemma fits_Nil [simp]: "fits sz [] \<longleftrightarrow> 0 < sz"
  by (simp add: fits_def)

lemma init_defaults_buffers_ok: "config_buffers_ok zereh_config_init_defaults"
  unfolding config_buffers_ok_def zereh_config_init_defaults_def
  by (auto intro!: fits_snprintf_s)

lemma init_defaults_wf: "config_wf zereh_config_init_defaults"
  using init_defaults_buffers_ok
  by (simp add: config_wf_def zereh_config_init_defaults_def)

section \<open>Enumerability\<close>

text \<open>
  The modes and targets are finite enumerations, so that a statement about all of them
  is decidable by evaluation.
\<close>

instantiation zereh_xdp_mode :: enum
begin

definition enum_zereh_xdp_mode :: "zereh_xdp_mode list" where
  "enum_zereh_xdp_mode = [ZEREH_XDP_MODE_NATIVE, ZEREH_XDP_MODE_SKB, ZEREH_XDP_MODE_OFFLOAD]"

definition enum_all_zereh_xdp_mode :: "(zereh_xdp_mode \<Rightarrow> bool) \<Rightarrow> bool" where
  "enum_all_zereh_xdp_mode P \<longleftrightarrow> P ZEREH_XDP_MODE_NATIVE \<and> P ZEREH_XDP_MODE_SKB \<and> P ZEREH_XDP_MODE_OFFLOAD"

definition enum_ex_zereh_xdp_mode :: "(zereh_xdp_mode \<Rightarrow> bool) \<Rightarrow> bool" where
  "enum_ex_zereh_xdp_mode P \<longleftrightarrow> P ZEREH_XDP_MODE_NATIVE \<or> P ZEREH_XDP_MODE_SKB \<or> P ZEREH_XDP_MODE_OFFLOAD"

instance
proof
  show "(UNIV :: zereh_xdp_mode set) = set enum_class.enum"
    unfolding enum_zereh_xdp_mode_def by (auto intro: zereh_xdp_mode.exhaust)
qed (auto simp: enum_zereh_xdp_mode_def enum_all_zereh_xdp_mode_def enum_ex_zereh_xdp_mode_def,
    (metis zereh_xdp_mode.exhaust)+)

end

end
