(* ===== verification/Zereh_Hash.thy ===== *)
theory Zereh_Hash
  imports Zereh_Config
begin

text \<open>
  The control plane's hashes (\<open>control/hash.c\<close>): domain normalisation, FNV-1a with
  the source's constants, SipHash-2-4 with the fixed keys, and the selection between
  them. A C loop over a buffer is a recursion over the bytes that remain. Every store into
  the output buffer of the normalisation is checked; the hash functions, whose buffer has 256
  characters, go on with what was stored (\<open>normalize_domain_Ret\<close> shows that there is no fault).
\<close>

section \<open>Definitions\<close>

definition ZEREH_FNV1A64_OFFSET :: u64 where "ZEREH_FNV1A64_OFFSET = 1469598103934665603"
definition ZEREH_FNV1A64_PRIME :: u64 where "ZEREH_FNV1A64_PRIME = 1099511628211"

definition ZEREH_SIPHASH_K0 :: u64 where "ZEREH_SIPHASH_K0 = 0x0706050403020100"
definition ZEREH_SIPHASH_K1 :: u64 where "ZEREH_SIPHASH_K1 = 0x0f0e0d0c0b0a0908"

definition zereh_rotl64 :: "u64 \<Rightarrow> nat \<Rightarrow> u64" where
  "zereh_rotl64 x b = push_bit b x OR drop_bit (64 - b) x"

type_synonym sip_state = "u64 \<times> u64 \<times> u64 \<times> u64"

fun zereh_sipround :: "sip_state \<Rightarrow> sip_state" where
  "zereh_sipround (v0, v1, v2, v3) = (
     let v0 = v0 + v1; v1 = zereh_rotl64 v1 13; v1 = v1 XOR v0; v0 = zereh_rotl64 v0 32;
         v2 = v2 + v3; v3 = zereh_rotl64 v3 16; v3 = v3 XOR v2;
         v0 = v0 + v3; v3 = zereh_rotl64 v3 21; v3 = v3 XOR v0;
         v2 = v2 + v1; v1 = zereh_rotl64 v1 17; v1 = v1 XOR v2; v2 = zereh_rotl64 v2 32
     in (v0, v1, v2, v3))"

text \<open>
  The copy loop of \<open>zereh_normalize_domain\<close>: \<open>n\<close> characters are already in the output
  buffer of \<open>out_sz\<close>; a dot that ends the domain stops the loop. The terminator is stored
  after it.
\<close>

fun normalize_loop :: "nat \<Rightarrow> nat \<Rightarrow> string \<Rightarrow> string cres" where
  "normalize_loop out_sz n [] = Ret []"
| "normalize_loop out_sz n (c # cs) =
     (if n + 1 < out_sz
      then if c = CHR ''.'' \<and> cs = [] then Ret []
           else cres_bind (in_buf n out_sz) (\<lambda>_.
                cres_bind (normalize_loop out_sz (n + 1) cs) (\<lambda>out. Ret (c_tolower c # out)))
      else Ret [])"

definition zereh_normalize_domain :: "string \<Rightarrow> nat \<Rightarrow> string cres" where
  "zereh_normalize_domain domain out_sz =
     (if out_sz = 0 then Ret [] else
      cres_bind (normalize_loop out_sz 0 domain) (\<lambda>out.
      cres_bind (in_buf (length out) out_sz) (\<lambda>_. Ret out)))"

fun fnv1a64_loop :: "u64 \<Rightarrow> bytes \<Rightarrow> u64" where
  "fnv1a64_loop hash [] = hash"
| "fnv1a64_loop hash (d # ds) = fnv1a64_loop ((hash XOR ucast d) * ZEREH_FNV1A64_PRIME) ds"

definition zereh_fnv1a64_bytes :: "bytes \<Rightarrow> u64" where
  "zereh_fnv1a64_bytes data = fnv1a64_loop ZEREH_FNV1A64_OFFSET data"

definition sip_init :: sip_state where
  "sip_init = (0x736f6d6570736575 XOR ZEREH_SIPHASH_K0, 0x646f72616e646f6d XOR ZEREH_SIPHASH_K1,
               0x6c7967656e657261 XOR ZEREH_SIPHASH_K0, 0x7465646279746573 XOR ZEREH_SIPHASH_K1)"

text \<open>\<open>v3 ^= m\<close>, two rounds, \<open>v0 ^= m\<close>\<close>

fun sip_compress :: "sip_state \<Rightarrow> u64 \<Rightarrow> sip_state" where
  "sip_compress (v0, v1, v2, v3) m =
     (case zereh_sipround (zereh_sipround (v0, v1, v2, v3 XOR m)) of
        (w0, w1, w2, w3) \<Rightarrow> (w0 XOR m, w1, w2, w3))"

text \<open>\<open>v2 ^= 0xff\<close>, four rounds and the final sum\<close>

fun sip_finish :: "sip_state \<Rightarrow> u64" where
  "sip_finish (v0, v1, v2, v3) =
     (case zereh_sipround (zereh_sipround (zereh_sipround (zereh_sipround (v0, v1, v2 XOR 0xff, v3)))) of
        (w0, w1, w2, w3) \<Rightarrow> w0 XOR w1 XOR w2 XOR w3)"

definition sip_word :: "bytes \<Rightarrow> u64" where
  "sip_word d = ucast (d ! 0) OR push_bit 8 (ucast (d ! 1)) OR push_bit 16 (ucast (d ! 2)) OR
     push_bit 24 (ucast (d ! 3)) OR push_bit 32 (ucast (d ! 4)) OR push_bit 40 (ucast (d ! 5)) OR
     push_bit 48 (ucast (d ! 6)) OR push_bit 56 (ucast (d ! 7))"

text \<open>The block loop: the state after the whole blocks, and the bytes left over.\<close>

function sip_blocks :: "sip_state \<Rightarrow> bytes \<Rightarrow> sip_state \<times> bytes" where
  "sip_blocks v data =
     (if 8 \<le> length data then sip_blocks (sip_compress v (sip_word data)) (drop 8 data)
      else (v, data))"
  by pat_completeness auto
termination
  by (relation "measure (length \<circ> snd)") auto

declare sip_blocks.simps [simp del]

text \<open>\<open>b |= data[off + i] << (8 * i)\<close> for the bytes that remain\<close>

fun sip_tail :: "u64 \<Rightarrow> nat \<Rightarrow> bytes \<Rightarrow> u64" where
  "sip_tail b i [] = b"
| "sip_tail b i (d # ds) = sip_tail (b OR push_bit (8 * i) (ucast d)) (i + 1) ds"

definition zereh_siphash24_bytes :: "bytes \<Rightarrow> u64" where
  "zereh_siphash24_bytes data =
     (let b = push_bit 56 (of_nat (length data));
          (v, rest) = sip_blocks sip_init data
      in sip_finish (sip_compress v (sip_tail b 0 rest)))"

definition zereh_fnv1a64_domain :: "string \<Rightarrow> u64" where
  "zereh_fnv1a64_domain domain =
     (let normalized = the_ret (zereh_normalize_domain domain (ZEREH_MAX_DOMAIN_LEN + 1))
      in if length normalized = 0 then 0 else zereh_fnv1a64_bytes (bytes_of normalized))"

definition zereh_siphash24_domain :: "string \<Rightarrow> u64" where
  "zereh_siphash24_domain domain =
     (let normalized = the_ret (zereh_normalize_domain domain (ZEREH_MAX_DOMAIN_LEN + 1))
      in if length normalized = 0 then 0 else zereh_siphash24_bytes (bytes_of normalized))"

definition zereh_hash_domain :: "string \<Rightarrow> zereh_hash_algorithm \<Rightarrow> u64" where
  "zereh_hash_domain domain algo =
     (if algo = ZEREH_HASH_SIPHASH then zereh_siphash24_domain domain
      else zereh_fnv1a64_domain domain)"

section \<open>Normalisation\<close>

text \<open>The reference: drop one trailing dot, then lower-case.\<close>

definition strip_dot :: "string \<Rightarrow> string" where
  "strip_dot s = (if s \<noteq> [] \<and> last s = CHR ''.'' then butlast s else s)"

lemma normalize_loop_eq:
  "length s + n < out_sz \<Longrightarrow> normalize_loop out_sz n s = Ret (map c_tolower (strip_dot s))"
  by (induction out_sz n s rule: normalize_loop.induct) (auto simp: strip_dot_def)

lemma length_strip_dot: "length (strip_dot s) \<le> length s"
  by (simp add: strip_dot_def)

lemma normalize_domain_eq:
  "length s < out_sz \<Longrightarrow> zereh_normalize_domain s out_sz = Ret (map c_tolower (strip_dot s))"
  using normalize_loop_eq [of s 0 out_sz] le_less_trans [OF length_strip_dot [of s]]
  by (simp add: zereh_normalize_domain_def)

text \<open>No store leaves the buffer, whatever the domain; what does not fit is cut off.\<close>

lemma normalize_loop_Ret: "n < out_sz \<Longrightarrow> \<exists>out. normalize_loop out_sz n s = Ret out \<and> n + length out < out_sz"
  by (induction out_sz n s rule: normalize_loop.induct) fastforce+

lemma normalize_domain_Ret: "0 < out_sz \<Longrightarrow> \<exists>out. zereh_normalize_domain s out_sz = Ret out \<and> length out < out_sz"
  using normalize_loop_Ret [of 0 out_sz s] by (auto simp: zereh_normalize_domain_def)

section \<open>The hashes over appended and padded data\<close>

lemma fnv1a64_loop_append: "fnv1a64_loop h (xs @ ys) = fnv1a64_loop (fnv1a64_loop h xs) ys"
  by (induction xs arbitrary: h) auto

lemma sip_word_take: "8 \<le> n \<Longrightarrow> sip_word (take n d) = sip_word d"
  by (simp add: sip_word_def)

lemma length_sip_blocks_rest: "length (snd (sip_blocks v data)) = length data mod 8"
proof (induction v data rule: sip_blocks.induct)
  case (1 v data)
  then show ?case
    by (subst sip_blocks.simps) (auto simp: le_mod_geq)
qed

end
