(* ===== verification/Zereh_Dns_Parser.thy ===== *)
theory Zereh_Dns_Parser
  imports Zereh_Hash
begin

text \<open>
  The packet parser of the data plane (\<open>xdp/dns_parser.h\<close>). A pointer is an offset into
  the packet, \<open>data_end\<close> its length; every load goes through \<open>ld8\<close>/\<open>ld16\<close>, which
  fault outside the packet, and every store into \<open>qname[256]\<close> faults outside the array,
  so the theorems show that no packet whatsoever makes the parser access memory it must
  not access.

  \<open>zereh_parse_dns_query\<close> is compared with a reference: the wire format of a question
  name as a list of labels (\<open>wire_name\<close>) and the dotted, lower-cased name it stands for
  (\<open>dotted\<close>).
\<close>

section \<open>Definitions\<close>

abbreviation (input) "ZEREH_DNS_MAX_LABELS \<equiv> (32 :: nat)"
abbreviation (input) "ZEREH_DNS_MAX_LABEL_LEN \<equiv> (63 :: nat)"
abbreviation (input) "ZEREH_DNS_MAX_QNAME \<equiv> (255 :: nat)"

text \<open>Sizes and field offsets of the protocol headers (Ethernet, IPv4, UDP, DNS).\<close>

abbreviation (input) "ETH_SZ \<equiv> (14 :: nat)"
abbreviation (input) "ETH_h_proto \<equiv> (12 :: nat)"
abbreviation (input) "IP_SZ \<equiv> (20 :: nat)"
abbreviation (input) "IP_protocol \<equiv> (9 :: nat)"
abbreviation (input) "IP_check \<equiv> (10 :: nat)"
abbreviation (input) "IP_saddr \<equiv> (12 :: nat)"
abbreviation (input) "IP_daddr \<equiv> (16 :: nat)"
abbreviation (input) "UDP_SZ \<equiv> (8 :: nat)"
abbreviation (input) "UDP_dest \<equiv> (2 :: nat)"
abbreviation (input) "UDP_len \<equiv> (4 :: nat)"
abbreviation (input) "UDP_check \<equiv> (6 :: nat)"
abbreviation (input) "DNS_SZ \<equiv> (12 :: nat)"
abbreviation (input) "DNS_flags \<equiv> (2 :: nat)"
abbreviation (input) "DNS_qdcount \<equiv> (4 :: nat)"
abbreviation (input) "ETH_P_IP \<equiv> (0x0800 :: u16)"
abbreviation (input) "IPPROTO_UDP \<equiv> (17 :: u8)"

record dns_query_meta =
  m_qname_hash :: u64
  m_dns_id :: u16
  m_qtype :: u16
  m_qclass :: u16
  m_opcode :: u8
  m_is_truncated :: u8
  m_label_depth :: u8
  m_qname_len :: u16
  m_qname :: bytes

definition zereh_ascii_tolower :: "u8 \<Rightarrow> u8" where
  "zereh_ascii_tolower c = (if 65 \<le> c \<and> c \<le> 90 then c + (97 - 65) else c)"

definition zereh_fnv1a64_step :: "u64 \<Rightarrow> u8 \<Rightarrow> u64" where
  "zereh_fnv1a64_step hash c = (hash XOR ucast c) * 1099511628211"

definition zereh_parse_eth_ipv4_udp :: "bytes \<Rightarrow> (nat \<times> nat \<times> nat) cres" where
  "zereh_parse_eth_ipv4_udp pkt = (
     let data_end = length pkt; eth = 0 in
     if eth + ETH_SZ > data_end then Err else
     cres_bind (ld16 pkt (eth + ETH_h_proto)) (\<lambda>h_proto.
     if h_proto \<noteq> bpf_htons ETH_P_IP then Err else
     let iph = eth + ETH_SZ in
     if iph + IP_SZ > data_end then Err else
     cres_bind (ld8 pkt iph) (\<lambda>version_ihl. cres_bind (ld8 pkt (iph + IP_protocol)) (\<lambda>protocol.
     let ihl = version_ihl AND 0x0f in
     if ihl < 5 \<or> protocol \<noteq> IPPROTO_UDP then Err else
     let ihl_bytes = (ucast ihl :: u32) * 4 in
     if iph + unat ihl_bytes > data_end then Err else
     let udp = iph + unat ihl_bytes in
     if udp + UDP_SZ > data_end then Err else
     Ret (eth, iph, udp)))))"

text \<open>
  \<open>meta->qname[meta->qname_len++] = c\<close> and the hash step that goes with it; the store
  faults outside \<open>qname[ZEREH_DNS_MAX_QNAME + 1]\<close>.
\<close>

definition qname_push :: "dns_query_meta \<Rightarrow> u8 \<Rightarrow> dns_query_meta cres" where
  "qname_push meta c =
     (if unat (m_qname_len meta) < length (m_qname meta)
      then Ret (meta\<lparr>m_qname := (m_qname meta)[unat (m_qname_len meta) := c],
                     m_qname_len := m_qname_len meta + 1,
                     m_qname_hash := zereh_fnv1a64_step (m_qname_hash meta) c\<rparr>)
      else Fault)"

text \<open>The inner loop \<open>for (j = 0; j < ZEREH_DNS_MAX_LABEL_LEN; j++)\<close>; \<open>k\<close> iterations remain.\<close>

fun label_bytes_loop :: "nat \<Rightarrow> bytes \<Rightarrow> nat \<Rightarrow> u8 \<Rightarrow> nat \<Rightarrow> dns_query_meta \<Rightarrow> dns_query_meta cres" where
  "label_bytes_loop 0 pkt cursor lbl_len j meta = Ret meta"
| "label_bytes_loop (Suc k) pkt cursor lbl_len j meta =
     (if j \<ge> unat lbl_len then Ret meta else
      cres_bind (ld8 pkt (cursor + j)) (\<lambda>b.
      let c = zereh_ascii_tolower b in
      if unat (m_qname_len meta) \<ge> ZEREH_DNS_MAX_QNAME then Err else
      cres_bind (qname_push meta c) (\<lambda>meta'.
      label_bytes_loop k pkt cursor lbl_len (j + 1) meta')))"

text \<open>
  The outer loop \<open>for (label = 0; label < ZEREH_DNS_MAX_LABELS; label++)\<close>; \<open>k\<close>
  iterations remain. It yields the cursor, \<open>ended\<close> and the metadata.
\<close>

fun label_loop :: "nat \<Rightarrow> bytes \<Rightarrow> nat \<Rightarrow> nat \<Rightarrow> dns_query_meta \<Rightarrow> (nat \<times> bool \<times> dns_query_meta) cres" where
  "label_loop 0 pkt dns_end cursor meta = Ret (cursor, False, meta)"
| "label_loop (Suc k) pkt dns_end cursor meta =
     (if cursor + 1 > dns_end then Err else
      cres_bind (ld8 pkt cursor) (\<lambda>lbl_len.
      let cursor = cursor + 1 in
      if lbl_len = 0 then Ret (cursor, True, meta) else
      if lbl_len AND 0xc0 \<noteq> 0 \<or> unat lbl_len > ZEREH_DNS_MAX_LABEL_LEN then Err else
      if cursor + unat lbl_len > dns_end then Err else
      cres_bind
        (if m_label_depth meta > 0
         then if unat (m_qname_len meta) \<ge> ZEREH_DNS_MAX_QNAME then Err
              else qname_push meta 46
         else Ret meta) (\<lambda>meta1.
      cres_bind (label_bytes_loop ZEREH_DNS_MAX_LABEL_LEN pkt cursor lbl_len 0 meta1) (\<lambda>meta2.
      label_loop k pkt dns_end (cursor + unat lbl_len)
        (meta2\<lparr>m_label_depth := m_label_depth meta2 + 1\<rparr>)))))"

text \<open>\<open>memset (meta, 0, sizeof *meta)\<close>\<close>

definition meta_zero :: dns_query_meta where
  "meta_zero = \<lparr>m_qname_hash = 0, m_dns_id = 0, m_qtype = 0, m_qclass = 0, m_opcode = 0,
     m_is_truncated = 0, m_label_depth = 0, m_qname_len = 0,
     m_qname = replicate (ZEREH_DNS_MAX_QNAME + 1) 0\<rparr>"

text \<open>The metadata before the label loop.\<close>

definition meta_start :: "u16 \<Rightarrow> u16 \<Rightarrow> dns_query_meta" where
  "meta_start dns_id flags = meta_zero\<lparr>
     m_dns_id := dns_id,
     m_opcode := ucast (drop_bit 11 flags AND 0x0f),
     m_is_truncated := (if flags AND 0x0200 \<noteq> 0 then 1 else 0),
     m_qname_hash := 1469598103934665603\<rparr>"

text \<open>From the end of the label loop: type and class, and the terminating NUL.\<close>

definition parse_question_end :: "bytes \<Rightarrow> nat \<Rightarrow> nat \<times> bool \<times> dns_query_meta \<Rightarrow> dns_query_meta cres" where
  "parse_question_end pkt dns_end = (\<lambda>(cursor, ended, meta).
     if \<not> ended \<or> m_qname_len meta = 0 then Err else
     if cursor + 4 > dns_end then Err else
     cres_bind (ld16 pkt cursor) (\<lambda>qtype_be. cres_bind (ld16 pkt (cursor + 2)) (\<lambda>qclass_be.
     let meta = meta\<lparr>m_qtype := bpf_ntohs qtype_be, m_qclass := bpf_ntohs qclass_be\<rparr> in
     if unat (m_qname_len meta) < length (m_qname meta)
     then Ret (meta\<lparr>m_qname := (m_qname meta)[unat (m_qname_len meta) := 0]\<rparr>)
     else Fault)))"

definition zereh_parse_dns_query :: "bytes \<Rightarrow> nat \<Rightarrow> dns_query_meta cres" where
  "zereh_parse_dns_query pkt udp = (
     let data_end = length pkt; dns = udp + UDP_SZ in
     if dns + DNS_SZ > data_end then Err else
     cres_bind (ld16 pkt (udp + UDP_len)) (\<lambda>ulen.
     let dns_end = udp + unat (bpf_ntohs ulen) in
     if dns_end > data_end then Err else
     if dns_end < dns + DNS_SZ + 5 then Err else
     cres_bind (ld16 pkt (dns + DNS_flags)) (\<lambda>flags_be.
     let flags = bpf_ntohs flags_be in
     if flags AND 0x8000 \<noteq> 0 then Err else
     cres_bind (ld16 pkt (dns + DNS_qdcount)) (\<lambda>qdcount.
     if bpf_ntohs qdcount = 0 then Err else
     cres_bind (ld16 pkt dns) (\<lambda>dns_id.
     cres_bind (label_loop ZEREH_DNS_MAX_LABELS pkt dns_end (dns + DNS_SZ)
                  (meta_start (bpf_ntohs dns_id) flags))
       (parse_question_end pkt dns_end))))))"

section \<open>Reference\<close>

text \<open>
  \<open>qname_of\<close> is the name a metadata record holds; \<open>meta_buf_ok\<close> says that it fits the
  buffer; \<open>meta_ext\<close> appends bytes to it in one step, hash included.
\<close>

definition qname_of :: "dns_query_meta \<Rightarrow> bytes" where
  "qname_of meta = take (unat (m_qname_len meta)) (m_qname meta)"

definition meta_buf_ok :: "dns_query_meta \<Rightarrow> bool" where
  "meta_buf_ok meta \<longleftrightarrow> length (m_qname meta) = 256 \<and> unat (m_qname_len meta) \<le> 255"

definition meta_ext :: "dns_query_meta \<Rightarrow> bytes \<Rightarrow> dns_query_meta" where
  "meta_ext meta cs = meta\<lparr>
     m_qname := qname_of meta @ cs @ drop (unat (m_qname_len meta) + length cs) (m_qname meta),
     m_qname_len := m_qname_len meta + of_nat (length cs),
     m_qname_hash := fnv1a64_loop (m_qname_hash meta) cs\<rparr>"

text \<open>
  The wire format of a question name: each label preceded by its length, then the empty
  label. Its text, as the parser builds it: lower-cased labels joined with dots
  (\<open>sep_text True\<close> for the labels after the first).
\<close>

fun wire_labels :: "bytes list \<Rightarrow> bytes" where
  "wire_labels [] = []"
| "wire_labels (l # ls) = of_nat (length l) # l @ wire_labels ls"

definition wire_name :: "bytes list \<Rightarrow> bytes" where
  "wire_name ls = wire_labels ls @ [0]"

definition label_ok :: "bytes \<Rightarrow> bool" where
  "label_ok l \<longleftrightarrow> 1 \<le> length l \<and> length l \<le> 63"

fun sep_text :: "bool \<Rightarrow> bytes list \<Rightarrow> bytes" where
  "sep_text d [] = []"
| "sep_text d (l # ls) = (if d then [46] else []) @ map zereh_ascii_tolower l @ sep_text True ls"

abbreviation (input) dotted :: "bytes list \<Rightarrow> bytes" where
  "dotted \<equiv> sep_text False"

text \<open>The separator that the next label adds to the name.\<close>

definition sep_part :: "dns_query_meta \<Rightarrow> bytes" where
  "sep_part meta = (if m_label_depth meta > 0 then [46] else [])"

text \<open>What every metadata record the parser returns satisfies, and what its clients rely on.\<close>

definition meta_wf :: "dns_query_meta \<Rightarrow> bool" where
  "meta_wf meta \<longleftrightarrow> meta_buf_ok meta \<and> qname_of meta \<noteq> [] \<and>
     m_qname_hash meta = zereh_fnv1a64_bytes (qname_of meta) \<and> m_opcode meta \<le> 15"

text \<open>The metadata of a query for the labels \<open>ls\<close>, and the bytes of such a query.\<close>

definition query_meta :: "u16 \<Rightarrow> u16 \<Rightarrow> bytes list \<Rightarrow> u16 \<Rightarrow> u16 \<Rightarrow> dns_query_meta" where
  "query_meta i flags ls qt qc = 
     \<lparr>m_qname_hash = zereh_fnv1a64_bytes (dotted ls), m_dns_id = i, m_qtype = qt, m_qclass = qc,
      m_opcode = ucast (drop_bit 11 flags AND 0x0f),
      m_is_truncated = (if flags AND 0x0200 \<noteq> 0 then 1 else 0),
      m_label_depth = of_nat (length ls), m_qname_len = of_nat (length (dotted ls)),
      m_qname = dotted ls @ replicate (256 - length (dotted ls)) 0\<rparr>"

definition dns_query_payload :: "u16 \<Rightarrow> u16 \<Rightarrow> u16 \<Rightarrow> bytes \<Rightarrow> bytes list \<Rightarrow> u16 \<Rightarrow> u16 \<Rightarrow> bytes \<Rightarrow> bytes" where
  "dns_query_payload i flags qdcount counts ls qt qc extra =
     be16 i @ be16 flags @ be16 qdcount @ counts @ wire_name ls @ be16 qt @ be16 qc @ extra"

definition udp_header :: "u16 \<Rightarrow> u16 \<Rightarrow> u16 \<Rightarrow> u16 \<Rightarrow> bytes" where
  "udp_header sport dport ulen chk = be16 sport @ be16 dport @ be16 ulen @ be16 chk"

section \<open>Lemmas\<close>

lemma parse_eth_not_Fault: "zereh_parse_eth_ipv4_udp pkt \<noteq> Fault"
  by (auto simp: zereh_parse_eth_ipv4_udp_def Let_def cres_simps)

lemma step_eq: "zereh_fnv1a64_step h c = fnv1a64_loop h [c]"
  by (simp add: zereh_fnv1a64_step_def ZEREH_FNV1A64_PRIME_def)

lemma unat_qname_len_add:
  "unat (l :: u16) + n \<le> 255 \<Longrightarrow> unat (l + of_nat n) = unat l + n"
  by (simp add: unat_word_ariths unat_of_nat)

lemma meta_ext_Nil [simp]: "meta_ext meta [] = meta"
  by (simp add: meta_ext_def qname_of_def)

lemma qname_push_ext:
  assumes "meta_buf_ok meta" 
  shows "qname_push meta c = Ret (meta_ext meta [c])"
  using assms
  by (auto simp: qname_push_def meta_ext_def meta_buf_ok_def step_eq qname_of_def upd_conv_take_nth_drop)

lemma meta_ext_ext:
  assumes "meta_buf_ok meta" and "unat (m_qname_len meta) + length cs + length ds \<le> 255"
  shows "meta_ext (meta_ext meta cs) ds = meta_ext meta (cs @ ds)"
  using assms
  by (simp add: meta_ext_def meta_buf_ok_def qname_of_def unat_qname_len_add fnv1a64_loop_append ac_simps min_def)

lemma meta_ext_ok:
  assumes "meta_buf_ok meta" and "unat (m_qname_len meta) + length cs \<le> 255"
  shows "meta_buf_ok (meta_ext meta cs)" "unat (m_qname_len (meta_ext meta cs)) = unat (m_qname_len meta) + length cs"
   "qname_of (meta_ext meta cs) = qname_of meta @ cs"
  using assms
  by (auto simp add: meta_ext_def meta_buf_ok_def qname_of_def unat_qname_len_add min_def)

lemma label_bytes_loop_eq:
  assumes "meta_buf_ok meta" and "j \<le> unat lbl_len" and "unat lbl_len \<le> j + k"
    and "cursor + unat lbl_len \<le> length pkt"
  shows "label_bytes_loop k pkt cursor lbl_len j meta =
    (let bs = take (unat lbl_len - j) (drop (cursor + j) pkt)
     in if unat (m_qname_len meta) + length bs \<le> 255
        then Ret (meta_ext meta (map zereh_ascii_tolower bs)) else Err)"
  using assms
proof (induction k arbitrary: j meta)
  case 0
  then show ?case by (simp add: meta_buf_ok_def)
next
  case (Suc k)
  show ?case
  proof (cases "j = unat lbl_len")
    case True
    then show ?thesis using Suc.prems by (simp add: meta_buf_ok_def)
  next
    case False
    let ?b = "zereh_ascii_tolower (pkt ! (cursor + j))"
    have lt: "cursor + j < length pkt" "j < unat lbl_len" using False Suc.prems by auto
    have bs: "take (unat lbl_len - j) (drop (cursor + j) pkt) =
        pkt ! (cursor + j) # take (unat lbl_len - Suc j) (drop (cursor + Suc j) pkt)"
      using lt by (simp add: Cons_nth_drop_Suc [symmetric] take_Cons' Suc_diff_Suc)
    show ?thesis
    proof (cases "unat (m_qname_len meta) \<ge> 255")
      case True
      then show ?thesis using lt bs Suc.prems(1) by (auto simp: Let_def ld8_def meta_buf_ok_def)
    next
      case False
      have ok: "meta_buf_ok (meta_ext meta [?b])" "unat (m_qname_len (meta_ext meta [?b])) = unat (m_qname_len meta) + 1"
        using meta_ext_ok [OF Suc.prems(1), of "[?b]"] False by auto
      show ?thesis
        using False lt Suc.IH [OF ok(1), of "Suc j"] Suc.prems ok(2)
        by (auto simp: Let_def bs ld8_def qname_push_ext meta_ext_ext)
    qed
  qed
qed

lemma len_byte: "label_ok l \<Longrightarrow> unat (of_nat (length l) :: u8) = length l"
  by (simp add: label_ok_def unat_of_nat)

lemma len_byte_flags:
  assumes "unat (b :: u8) \<le> 63" shows "b AND 0xc0 = 0"
proof -
  have "b < 2 ^ 6" using assms by (simp add: word_less_nat_alt)
  then have "b AND mask 6 = b" by (rule less_mask_eq)
  then have "b AND 0xc0 = (b AND mask 6) AND 0xc0" by simp
  also have "\<dots> = 0" by (simp add: and.assoc mask_eq_exp_minus_1)
  finally show ?thesis .
qed

lemma sep_text_True: "sep_text True ls = concat (map (\<lambda>l. 46 # map zereh_ascii_tolower l) ls)"
  by (induction ls) auto

lemma one_label:
  assumes "meta_buf_ok meta" and "label_ok l" and "bytes_at pkt cursor l"
  shows "label_bytes_loop 63 pkt cursor (of_nat (length l)) 0 meta =
    (if unat (m_qname_len meta) + length l \<le> 255
        then Ret (meta_ext meta (map zereh_ascii_tolower l)) else Err)"
  using label_bytes_loop_eq [of meta 0 "of_nat (length l)" 63 cursor pkt] assms len_byte [OF assms(2)]
  by (auto simp: label_ok_def bytes_at_def Let_def)

lemma label_loop_step:
  assumes "meta_buf_ok meta" and "label_ok l" and "bytes_at pkt cursor (of_nat (length l) # l)"
    and "cursor + 1 + length l \<le> dns_end"
  shows "label_loop (Suc k) pkt dns_end cursor meta =
    (let t = sep_part meta @ map zereh_ascii_tolower l; meta' = meta_ext meta t in
     if unat (m_qname_len meta) + length t \<le> 255
     then label_loop k pkt dns_end (cursor + 1 + length l) (meta'\<lparr>m_label_depth := m_label_depth meta' + 1\<rparr>)
     else Err)"
proof -
  have ld: "ld8 pkt cursor = Ret (of_nat (length l))" and at: "bytes_at pkt (cursor + 1) l"
    using assms(3) by (auto simp: bytes_at_Cons ld8_def)
  have n: "unat (of_nat (length l) :: u8) = length l" "length l \<le> 63" "1 \<le> length l"
    using assms(2) len_byte by (auto simp: label_ok_def)
  then have nz: "of_nat (length l) \<noteq> (0 :: u8)" by (metis not_one_le_zero unat_0)
  have fl: "(of_nat (length l) :: u8) AND 0xc0 = 0" using n len_byte_flags by simp
  show ?thesis
  proof (cases "m_label_depth meta > 0")
    case True
    show ?thesis
    proof (cases "unat (m_qname_len meta) \<ge> 255")
      case True
      then show ?thesis using n \<open>m_label_depth meta > 0\<close> assms(4) ld nz fl
        by (simp add: sep_part_def Let_def del: label_bytes_loop.simps)
    next
      case False
      have ok: "meta_buf_ok (meta_ext meta [46])" "unat (m_qname_len (meta_ext meta [46])) = unat (m_qname_len meta) + 1"
        using meta_ext_ok [OF assms(1), of "[46]"] False by auto
      show ?thesis
        using False n \<open>m_label_depth meta > 0\<close> assms(1,4) ld nz fl one_label [OF ok(1) assms(2) at] ok(2)
        by (auto simp: sep_part_def Let_def qname_push_ext meta_ext_ext simp del: label_bytes_loop.simps)
    qed
  next
    case False
    then show ?thesis
      using n assms(4) ld nz fl one_label [OF assms(1,2) at]
      by (auto simp: sep_part_def Let_def simp del: label_bytes_loop.simps)
  qed
qed

lemma meta_ext_depth [simp]: "m_label_depth (meta_ext meta t) = m_label_depth meta"
  by (simp add: meta_ext_def)

lemma meta_buf_ok_depth [simp]: "meta_buf_ok (meta\<lparr>m_label_depth := d\<rparr>) \<longleftrightarrow> meta_buf_ok meta"
  by (simp add: meta_buf_ok_def)

lemma meta_ext_depth_upd: "meta_ext (meta\<lparr>m_label_depth := d\<rparr>) t = (meta_ext meta t)\<lparr>m_label_depth := d\<rparr>"
  by (simp add: meta_ext_def qname_of_def)

lemma depth_pos: "unat (d :: u8) + n < 256 \<Longrightarrow> 0 < n \<Longrightarrow> 0 < d + of_nat n"
  by (simp add: word_less_nat_alt unat_word_ariths unat_of_nat)

lemma label_loop_complete:
  assumes "meta_buf_ok meta" and "list_all label_ok ls" and "length ls < k"
    and "bytes_at pkt cursor (wire_name ls)" and "cursor + length (wire_name ls) \<le> dns_end"
    and "unat (m_label_depth meta) + length ls < 256"
  shows "label_loop k pkt dns_end cursor meta =
    (let t = sep_text (m_label_depth meta > 0) ls in
     if unat (m_qname_len meta) + length t \<le> 255
     then Ret (cursor + length (wire_name ls), True,
               (meta_ext meta t)\<lparr>m_label_depth := m_label_depth meta + of_nat (length ls)\<rparr>)
     else Err)"
  using assms
proof (induction ls arbitrary: k cursor meta)
  case Nil
  then obtain k' where "k = Suc k'" by (cases k) auto
  then show ?case using Nil.prems
    by (auto simp: wire_name_def bytes_at_Cons ld8_def meta_buf_ok_def)
next
  case (Cons l ls)
  obtain k' where k: "k = Suc k'" using Cons.prems(3) by (cases k) auto
  let ?t = "sep_part meta @ map zereh_ascii_tolower l"
  let ?m = "(meta_ext meta ?t)\<lparr>m_label_depth := m_label_depth meta + 1\<rparr>"
  have wn: "wire_name (l # ls) = (of_nat (length l) # l) @ wire_name ls"
    by (simp add: wire_name_def)
  have at: "bytes_at pkt cursor (of_nat (length l) # l)" "bytes_at pkt (cursor + 1 + length l) (wire_name ls)"
    using Cons.prems(4) unfolding wn bytes_at_append by auto
  have le: "cursor + 1 + length l \<le> dns_end" "cursor + 1 + length l + length (wire_name ls) \<le> dns_end"
    using Cons.prems(5) unfolding wn by auto
  have step: "label_loop k pkt dns_end cursor meta =
    (if unat (m_qname_len meta) + length ?t \<le> 255
     then label_loop k' pkt dns_end (cursor + 1 + length l) ?m else Err)"
    using label_loop_step [OF Cons.prems(1) _ at(1) le(1), of k'] Cons.prems(2) k by (simp add: Let_def)
  have tx: "sep_text (m_label_depth meta > 0) (l # ls) = ?t @ sep_text True ls"
    by (simp add: sep_part_def)
  show ?case
  proof (cases "unat (m_qname_len meta) + length ?t \<le> 255")
    case False
    then show ?thesis unfolding step tx by (simp add: Let_def)
  next
    case True
    note ok = meta_ext_ok [OF Cons.prems(1) True]
    have d: "0 < m_label_depth meta + 1" "unat (m_label_depth meta + 1) = unat (m_label_depth meta) + 1"
      using Cons.prems(6) depth_pos [of "m_label_depth meta" 1] by (simp_all add: unat_word_ariths)
    have "label_loop k' pkt dns_end (cursor + 1 + length l) ?m = 
      (if unat (m_qname_len ?m) + length (sep_text True ls) \<le> 255
     then Ret (cursor + 1 + length l + length (wire_name ls), True,
               (meta_ext ?m (sep_text True ls))\<lparr>m_label_depth := m_label_depth meta + 1 + of_nat (length ls)\<rparr>)
     else Err)"
      using Cons.IH [of ?m k' "cursor + 1 + length l"] Cons.prems(2,3,6) ok(1) at(2) le(2) d k
      by (simp add: Let_def)
    then show ?thesis
      using True ok(2) meta_ext_ext [OF Cons.prems(1), of ?t "sep_text True ls"]
      unfolding step tx wn by (auto simp: Let_def meta_ext_depth_upd add.assoc)
  qed
qed

lemma label_loop_cases:
  assumes "cursor + 1 \<le> dns_end" and "dns_end \<le> length pkt"
  obtains (stop) "pkt ! cursor = 0" "label_loop (Suc k) pkt dns_end cursor meta = Ret (cursor + 1, True, meta)"
    | (bad) "label_loop (Suc k) pkt dns_end cursor meta = Err"
    | (label) l where "label_ok l" "bytes_at pkt cursor (of_nat (length l) # l)" "cursor + 1 + length l \<le> dns_end"
proof -
  let ?b = "pkt ! cursor"
  have ld: "ld8 pkt cursor = Ret ?b" using assms by (simp add: ld8_def)
  consider "?b = 0" | "?b \<noteq> 0" "unat ?b > 63 \<or> cursor + 1 + unat ?b > dns_end"
    | "?b \<noteq> 0" "unat ?b \<le> 63" "cursor + 1 + unat ?b \<le> dns_end" by linarith
  then show thesis
  proof cases
    case 1
    then show ?thesis using assms ld by (intro stop) auto
  next
    case 2
    then show ?thesis using assms ld by (intro bad) (auto simp: Let_def)
  next
    case 3
    let ?l = "take (unat ?b) (drop (cursor + 1) pkt)"
    have len: "length ?l = unat ?b" using 3 assms by simp
    have "unat ?b \<noteq> 0" using 3(1) by (simp add: unat_eq_0)
    moreover have "bytes_at pkt cursor (of_nat (length ?l) # ?l)"
      using 3 assms unfolding len bytes_at_Cons by (auto simp: bytes_at_def)
    ultimately show ?thesis using 3 len by (intro label [of ?l]) (auto simp: label_ok_def)
  qed
qed

lemma label_loop_safe:
  assumes "meta_buf_ok meta" and "dns_end \<le> length pkt"
  shows "label_loop k pkt dns_end cursor meta \<noteq> Fault"
  using assms(1)
proof (induction k arbitrary: cursor meta)
  case (Suc k)
  show ?case
  proof (cases "cursor + 1 \<le> dns_end")
    case True
    show ?thesis
    proof (rule label_loop_cases [OF True assms(2), of k meta])
      fix l assume label: "label_ok l" "bytes_at pkt cursor (of_nat (length l) # l)"
        "cursor + 1 + length l \<le> dns_end"
      show "label_loop (Suc k) pkt dns_end cursor meta \<noteq> Fault"
        using Suc.IH Suc.prems meta_ext_ok(1) [OF Suc.prems]
        unfolding label_loop_step [OF Suc.prems label] Let_def by auto
    qed auto
  qed simp
qed simp

lemma label_loop_sound:
  assumes "meta_buf_ok meta" and "dns_end \<le> length pkt"
    and "label_loop k pkt dns_end cursor meta = Ret (cur', True, meta')"
  shows "\<exists>ls. list_all label_ok ls \<and> length ls < k \<and> bytes_at pkt cursor (wire_name ls) \<and>
    cursor + length (wire_name ls) \<le> dns_end"
  using assms(1,3)
proof (induction k arbitrary: cursor meta)
  case (Suc k)
  have c: "cursor + 1 \<le> dns_end"
    using Suc.prems(2) by (auto split: if_splits)
  show ?case
  proof (rule label_loop_cases [OF c assms(2), of k meta], goal_cases)
    case 1
    then show ?case using c assms(2)
      by (intro exI [of _ "[]"]) (auto simp: wire_name_def bytes_at_Cons bytes_at_Nil)
  next
    case 2
    then show ?case using Suc.prems(2) by simp
  next
    case label: (3 l)
    obtain meta1 where "meta_buf_ok meta1"
      "label_loop k pkt dns_end (cursor + 1 + length l) meta1 = Ret (cur', True, meta')"
      using Suc.prems(2) meta_ext_ok(1) [OF Suc.prems(1)]
      unfolding label_loop_step [OF Suc.prems(1) label] Let_def
      by (metis cres.distinct(5) meta_buf_ok_depth)
    from Suc.IH [OF this] obtain ls where ls: "list_all label_ok ls" "length ls < k"
      "bytes_at pkt (cursor + 1 + length l) (wire_name ls)"
      "cursor + 1 + length l + length (wire_name ls) \<le> dns_end" by blast
    have wn: "wire_name (l # ls) = (of_nat (length l) # l) @ wire_name ls"
      by (simp add: wire_name_def)
    have "bytes_at pkt cursor (wire_name (l # ls))"
      unfolding wn bytes_at_append using label(2) ls(3) by simp
    then show ?case using ls label(1) wn
      by (intro exI [of _ "l # ls"]) auto
  qed
qed simp

lemma label_loop_too_many:
  assumes "meta_buf_ok meta" and "list_all label_ok ls" and "length ls = k"
    and "bytes_at pkt cursor (wire_labels ls)" and "cursor + length (wire_labels ls) \<le> dns_end"
  shows "label_loop k pkt dns_end cursor meta = Err \<or>
    (\<exists>cur' meta'. label_loop k pkt dns_end cursor meta = Ret (cur', False, meta'))"
  using assms
proof (induction ls arbitrary: k cursor meta)
  case (Cons l ls)
  obtain k' where k: "k = Suc k'" using Cons.prems(3) by (cases k) auto
  let ?t = "sep_part meta @ map zereh_ascii_tolower l"
  have at: "bytes_at pkt cursor (of_nat (length l) # l)" "bytes_at pkt (cursor + 1 + length l) (wire_labels ls)"
    using Cons.prems(4) bytes_at_append [of pkt cursor "of_nat (length l) # l"] by auto
  have le: "cursor + 1 + length l \<le> dns_end" using Cons.prems(5) by simp
  have lok: "label_ok l" using Cons.prems(2) by simp
  show ?case
  proof (cases "unat (m_qname_len meta) + length ?t \<le> 255")
    case True
    note ok = meta_ext_ok(1) [OF Cons.prems(1) True]
    show ?thesis
      unfolding k label_loop_step [OF Cons.prems(1) lok at(1) le] Let_def
      using True Cons.IH [OF _ _ _ at(2)] ok Cons.prems(2,3,5) k by auto
  next
    case False
    then show ?thesis
      unfolding k label_loop_step [OF Cons.prems(1) lok at(1) le] Let_def by simp
  qed
qed simp

lemma meta_fields_ext [simp]:
  "m_dns_id (meta_ext meta t) = m_dns_id meta" "m_opcode (meta_ext meta t) = m_opcode meta"
  "m_is_truncated (meta_ext meta t) = m_is_truncated meta"
  "m_qtype (meta_ext meta t) = m_qtype meta" "m_qclass (meta_ext meta t) = m_qclass meta"
  "m_qname_hash (meta_ext meta t) = fnv1a64_loop (m_qname_hash meta) t"
  by (simp_all add: meta_ext_def)

lemma meta_start_simps [simp]:
  "meta_buf_ok (meta_start i flags)" "m_qname_len (meta_start i flags) = 0"
  "m_label_depth (meta_start i flags) = 0" "qname_of (meta_start i flags) = []"
  "m_qname_hash (meta_start i flags) = ZEREH_FNV1A64_OFFSET"
  "m_qname (meta_start i flags) = replicate 256 0"
  by (simp_all add: meta_buf_ok_def meta_start_def meta_zero_def qname_of_def ZEREH_FNV1A64_OFFSET_def)

lemma label_loop_start:
  assumes "dns_end \<le> length pkt" "label_loop 32 pkt dns_end cursor (meta_start i flags) = Ret (cur', True, meta')"
  shows "\<exists>ls. list_all label_ok ls \<and> length ls \<le> 31 \<and> bytes_at pkt cursor (wire_name ls) \<and>
     length (dotted ls) \<le> 255 \<and> cur' = cursor + length (wire_name ls) \<and> cur' \<le> dns_end \<and>
     meta' = (meta_ext (meta_start i flags) (dotted ls))\<lparr>m_label_depth := of_nat (length ls)\<rparr>"
proof -
  let ?m = "meta_start i flags"
  obtain ls where ls: "list_all label_ok ls" "length ls < 32" "bytes_at pkt cursor (wire_name ls)"
    "cursor + length (wire_name ls) \<le> dns_end"
    using label_loop_sound [of ?m, OF _ assms] by auto
  have "length (dotted ls) \<le> 255 \<and> cur' = cursor + length (wire_name ls) \<and>
     meta' = (meta_ext ?m (dotted ls))\<lparr>m_label_depth := of_nat (length ls)\<rparr>"
    using label_loop_complete [of ?m, OF _ ls] assms(2) ls(2)
    by (auto simp: Let_def split: if_splits)
  then show ?thesis using ls by auto
qed

lemma parse_dns_not_Fault: "zereh_parse_dns_query pkt udp \<noteq> Fault"
proof -
  have tail: "parse_question_end pkt e (c, ended, m) \<noteq> Fault"
    if e: "e \<le> length pkt" and l: "label_loop 32 pkt e cur (meta_start i f) = Ret (c, ended, m)"
    for e c ended m cur i f
  proof (cases ended)
    case True
    obtain ls where "length (dotted ls) \<le> 255"
       "m = (meta_ext (meta_start i f) (dotted ls))\<lparr>m_label_depth := of_nat (length ls)\<rparr>"
      using label_loop_start [OF e, of cur i f c m] l True by auto
    then have "meta_buf_ok m" using meta_ext_ok(1) [of "meta_start i f" "dotted ls"] by simp
    then show ?thesis using e
      by (auto simp: parse_question_end_def meta_buf_ok_def Let_def cres_simps)
  qed (simp add: parse_question_end_def)
  show ?thesis
    using label_loop_safe [OF meta_start_simps(1)] tail
    by (auto simp: zereh_parse_dns_query_def Let_def cres_simps simp del: label_loop.simps)
qed

lemma length_wire_name: "length (wire_name ls) = (\<Sum>l\<leftarrow>ls. Suc (length l)) + 1"
  by (induction ls) (auto simp: wire_name_def)

lemma opcode_bound: "(ucast (drop_bit 11 (f :: u16) AND 0x0f) :: u8) \<le> 15"
proof -
  have "drop_bit 11 f AND 0x0f \<le> 0x0f" by (rule word_and_le1)
  then have "unat (drop_bit 11 f AND 0x0f) \<le> 15" by (simp add: word_le_nat_alt)
  then show ?thesis by (simp add: word_le_nat_alt unsigned_ucast_eq take_bit_nat_eq_self_iff [THEN iffD2])
qed

lemma query_meta_wf: 
  assumes "length (dotted ls) \<le> 255" "dotted ls \<noteq> []"
  shows "meta_wf (query_meta i flags ls qt qc)" "qname_of (query_meta i flags ls qt qc) = dotted ls"
  using assms by (simp_all add: query_meta_def meta_wf_def meta_buf_ok_def qname_of_def unat_of_nat opcode_bound)

lemma dotted_nonempty: "list_all label_ok ls \<Longrightarrow> dotted ls = [] \<longleftrightarrow> ls = []"
  by (cases ls) (auto simp: label_ok_def)

lemma parse_question_end_eq:
  assumes "length (dotted ls) \<le> 255"
  shows "parse_question_end pkt dns_end (cursor, True, (meta_ext (meta_start i flags) (dotted ls))\<lparr>m_label_depth := of_nat (length ls)\<rparr>)
   = (if dotted ls = [] \<or> cursor + 4 > dns_end then Err else
      cres_bind (ld16 pkt cursor) (\<lambda>qt. cres_bind (ld16 pkt (cursor + 2)) (\<lambda>qc. Ret (query_meta i flags ls (bpf_ntohs qt) (bpf_ntohs qc)))))"
proof -
  have len: "unat (of_nat (length (dotted ls)) :: u16) = length (dotted ls)"
    using assms by (simp add: unat_of_nat)
  then have z: "(of_nat (length (dotted ls)) :: u16) = 0 \<longleftrightarrow> dotted ls = []"
    by (metis length_0_conv unat_eq_0)
  have nul: "(dotted ls @ replicate (256 - length (dotted ls)) 0)[length (dotted ls) := 0] = dotted ls @ replicate (256 - length (dotted ls)) 0"
    using assms by (cases "256 - length (dotted ls)") (simp_all add: list_update_append)
  show ?thesis
    using assms len z nul
    by (auto simp: parse_question_end_def Let_def meta_ext_def query_meta_def meta_start_def
        meta_zero_def qname_of_def zereh_fnv1a64_bytes_def ZEREH_FNV1A64_OFFSET_def
        intro!: arg_cong2 [where f = cres_bind])
qed

lemma parse_dns_query_hdr:
  assumes "udp + 20 \<le> length pkt" and "ld16 pkt (udp + 4) = Ret ulen" and "ld16 pkt (udp + 8) = Ret i"
    and "ld16 pkt (udp + 10) = Ret fl" and "ld16 pkt (udp + 12) = Ret qd"
  shows "zereh_parse_dns_query pkt udp =
    (if udp + unat (bpf_ntohs ulen) > length pkt \<or> udp + unat (bpf_ntohs ulen) < udp + 25 \<or>
        bpf_ntohs fl AND 0x8000 \<noteq> 0 \<or> bpf_ntohs qd = 0
     then Err
     else cres_bind (label_loop 32 pkt (udp + unat (bpf_ntohs ulen)) (udp + 20)
                       (meta_start (bpf_ntohs i) (bpf_ntohs fl)))
            (parse_question_end pkt (udp + unat (bpf_ntohs ulen))))"
proof -
  have off: "udp + 8 + 12 = udp + 20" "udp + 8 + 2 = udp + 10" "udp + 8 + 4 = udp + 12" "udp + 20 + 5 = udp + 25"
    by simp_all
  show ?thesis
    unfolding zereh_parse_dns_query_def Let_def off assms(2-5) cres_bind.simps using assms(1) by auto
qed

lemma parse_dns_sound:
  assumes "zereh_parse_dns_query pkt udp = Ret meta"
  shows "\<exists>ls flags qd ulen. list_all label_ok ls \<and> ls \<noteq> [] \<and> length ls \<le> 31 \<and> length (dotted ls) \<le> 255 \<and>
    bytes_at pkt (udp + 8) (be16 (m_dns_id meta) @ be16 flags @ be16 qd) \<and> flags AND 0x8000 = 0 \<and> qd \<noteq> 0 \<and>
    bytes_at pkt (udp + 20) (wire_name ls @ be16 (m_qtype meta) @ be16 (m_qclass meta)) \<and>
    bytes_at pkt (udp + 4) (be16 ulen) \<and> udp + unat ulen \<le> length pkt \<and> 24 + length (wire_name ls) \<le> unat ulen \<and>
    meta = query_meta (m_dns_id meta) flags ls (m_qtype meta) (m_qclass meta)"
proof -
  have len: "udp + 20 \<le> length pkt"
    using assms by (auto simp: zereh_parse_dns_query_def Let_def split: if_splits)
  obtain ulen i fl qd where ld: "ld16 pkt (udp + 4) = Ret ulen" "ld16 pkt (udp + 8) = Ret i"
    "ld16 pkt (udp + 10) = Ret fl" "ld16 pkt (udp + 12) = Ret qd"
    using len ld16_ex [of "udp + 4" pkt] ld16_ex [of "udp + 8" pkt] ld16_ex [of "udp + 10" pkt]
      ld16_ex [of "udp + 12" pkt] by auto
  from assms obtain res where fl: "bpf_ntohs fl AND 0x8000 = 0" "bpf_ntohs qd \<noteq> 0"
    and e: "udp + unat (bpf_ntohs ulen) \<le> length pkt"
    and lp: "label_loop 32 pkt (udp + unat (bpf_ntohs ulen)) (udp + 20) (meta_start (bpf_ntohs i) (bpf_ntohs fl)) = Ret res"
    and q: "parse_question_end pkt (udp + unat (bpf_ntohs ulen)) res = Ret meta"
    unfolding parse_dns_query_hdr [OF len ld]
    by (auto simp: cres_simps simp del: label_loop.simps split: if_splits)
  let ?e = "udp + unat (bpf_ntohs ulen)"
  obtain cur ended m where res: "res = (cur, ended, m)" by (cases res)
  with q have ended by (auto simp: parse_question_end_def split: if_splits)
  with lp res obtain ls where ls: "list_all label_ok ls" "length ls \<le> 31" "bytes_at pkt (udp + 20) (wire_name ls)"
     "length (dotted ls) \<le> 255" "cur = udp + 20 + length (wire_name ls)"
     "m = (meta_ext (meta_start (bpf_ntohs i) (bpf_ntohs fl)) (dotted ls))\<lparr>m_label_depth := of_nat (length ls)\<rparr>"
    using label_loop_start [OF e, of "udp + 20" "bpf_ntohs i" "bpf_ntohs fl" cur m] by auto
  from q obtain qt qc where qq: "dotted ls \<noteq> []" "ld16 pkt cur = Ret qt" "ld16 pkt (cur + 2) = Ret qc" "cur + 4 \<le> ?e"
    "meta = query_meta (bpf_ntohs i) (bpf_ntohs fl) ls (bpf_ntohs qt) (bpf_ntohs qc)"
    unfolding res ls(6) using \<open>ended\<close> parse_question_end_eq [OF ls(4)]
    by (auto simp: cres_simps split: if_splits)
  have "bytes_at pkt (udp + 8) (be16 (bpf_ntohs i) @ be16 (bpf_ntohs fl) @ be16 (bpf_ntohs qd))"
    using ld(2-4) [THEN ld16_Ret] by (simp add: bytes_at_append add.commute)
  moreover have "bytes_at pkt (udp + 20) (wire_name ls @ be16 (bpf_ntohs qt) @ be16 (bpf_ntohs qc))"
    using ls(3,5) ld16_Ret [OF qq(2)] ld16_Ret [OF qq(3)] by (simp add: bytes_at_append)
  ultimately show ?thesis
    using ls qq fl dotted_nonempty [OF ls(1)] ld16_Ret [OF ld(1)] e
    by (intro exI [of _ ls] exI [of _ "bpf_ntohs fl"] exI [of _ "bpf_ntohs qd"] exI [of _ "bpf_ntohs ulen"])
      (auto simp: query_meta_def)
qed

lemma parse_dns_encoded:
  fixes i flags qd counts ls qt qc extra
  defines "payload \<equiv> dns_query_payload i flags qd counts ls qt qc extra"
  assumes "list_all label_ok ls" "ls \<noteq> []" "length ls \<le> 31" "length (dotted ls) \<le> 255"
    and "flags AND 0x8000 = 0" "qd \<noteq> 0" "length counts = 6" "8 + length payload < 2 ^ 16"
  shows "zereh_parse_dns_query (pre @ udp_header sp dp (of_nat (8 + length payload)) chk @ payload @ trailer) (length pre)
    = Ret (query_meta i flags ls qt qc)"
proof -
  let ?p = "pre @ udp_header sp dp (of_nat (8 + length payload)) chk @ payload @ trailer"
  let ?u = "length pre"
  let ?e = "?u + 8 + length payload"
  have at: "bytes_at ?p (?u + 4) (be16 (of_nat (8 + length payload)))"
    "bytes_at ?p (?u + 8) (be16 i)" "bytes_at ?p (?u + 10) (be16 flags)" "bytes_at ?p (?u + 12) (be16 qd)"
    "bytes_at ?p (?u + 20) (wire_name ls)" "bytes_at ?p (?u + 20 + length (wire_name ls)) (be16 qt)"
    "bytes_at ?p (?u + 22 + length (wire_name ls)) (be16 qc)"
    using assms(8) unfolding payload_def dns_query_payload_def udp_header_def
    by (auto simp: bytes_at_def)
  have len: "unat (of_nat (8 + length payload) :: u16) = 8 + length payload"
    using assms(9) by (simp add: unat_of_nat del: of_nat_add)
  have pl: "length payload = 16 + length (wire_name ls) + length extra"
    using assms(8) by (simp add: payload_def dns_query_payload_def)
  have w: "1 \<le> length (wire_name ls)" by (simp add: wire_name_def)
  note ld = at(1-4) [THEN ld16_be16]
  have le: "?u + 20 + length (wire_name ls) + 4 \<le> ?e" "?e \<le> length ?p" "?u + 20 \<le> length ?p"
    using pl by (auto simp: udp_header_def)
  have lp: "label_loop 32 ?p ?e (?u + 20) (meta_start i flags) =
      Ret (?u + 20 + length (wire_name ls), True,
           (meta_ext (meta_start i flags) (dotted ls))\<lparr>m_label_depth := of_nat (length ls)\<rparr>)"
    using label_loop_complete [of "meta_start i flags", OF _ assms(2) _ at(5), of 32 ?e] assms(4,5) le
    by (simp add: Let_def)
  have "zereh_parse_dns_query ?p ?u = parse_question_end ?p ?e (?u + 20 + length (wire_name ls), True,
      (meta_ext (meta_start i flags) (dotted ls))\<lparr>m_label_depth := of_nat (length ls)\<rparr>)"
    unfolding parse_dns_query_hdr [OF le(3) ld] bpf_ntohs_ntohs len add.assoc [symmetric] lp
    using assms(6,7) pl w le by auto
  also have "\<dots> = Ret (query_meta i flags ls qt qc)"
    unfolding parse_question_end_eq [OF assms(5)]
    using assms(2,3) dotted_nonempty le at(6,7) [THEN ld16_be16] by (auto simp: ac_simps)
  finally show ?thesis .
qed

lemma unat_ihl_bytes: "unat ((ucast (b AND 15 :: u8) :: u32) * 4) = 4 * unat (b AND 15)"
proof -
  have "b AND 15 \<le> 15" by (rule word_and_le1)
  then have "unat (b AND 15) \<le> 15" by (simp add: word_le_nat_alt)
  then show ?thesis by (simp add: unat_word_ariths unsigned_ucast_eq take_bit_nat_eq_self)
qed

lemma parse_eth_iff:
  "zereh_parse_eth_ipv4_udp pkt = Ret (eth, iph, udp) \<longleftrightarrow>
     eth = 0 \<and> iph = 14 \<and> bytes_at pkt 12 (be16 ETH_P_IP) \<and> 34 \<le> length pkt \<and>
     pkt ! 23 = IPPROTO_UDP \<and> 5 \<le> unat (pkt ! 14 AND 15) \<and>
     udp = 14 + 4 * unat (pkt ! 14 AND 15) \<and> udp + 8 \<le> length pkt"
  unfolding zereh_parse_eth_ipv4_udp_def Let_def
  by (auto simp: cres_simps ld16_Ret_iff ld8_Ret_iff unat_ihl_bytes word_less_nat_alt split: if_splits)

lemma parse_dns_too_many:
  assumes "list_all label_ok ls" "length ls = 32" "bytes_at pkt (udp + 20) (wire_labels ls)" 
    and "ld16 pkt (udp + 4) = Ret ulen" "udp + 20 + length (wire_labels ls) \<le> udp + unat (bpf_ntohs ulen)"
  shows "zereh_parse_dns_query pkt udp = Err"
proof -
  have len: "udp + 20 \<le> length pkt" using assms(3) by (simp add: bytes_at_def)
  obtain i fl qd where ld: "ld16 pkt (udp + 8) = Ret i"
    "ld16 pkt (udp + 10) = Ret fl" "ld16 pkt (udp + 12) = Ret qd"
    using len ld16_ex [of "udp + 8" pkt] ld16_ex [of "udp + 10" pkt] ld16_ex [of "udp + 12" pkt] by auto
  show ?thesis
    unfolding parse_dns_query_hdr [OF len assms(4) ld]
    using label_loop_too_many [OF meta_start_simps(1) assms(1,2,3,5), of "bpf_ntohs i" "bpf_ntohs fl"]
    by (auto simp: parse_question_end_def)
qed

section \<open>Properties\<close>

text \<open>
  (C8) Memory safety: whatever the packet, neither parser reads outside it, and no store
  into the name buffer is out of range.
\<close>

theorem parser_memory_safe:
  "zereh_parse_eth_ipv4_udp pkt \<noteq> Fault \<and> zereh_parse_dns_query pkt udp \<noteq> Fault"
  using parse_eth_not_Fault parse_dns_not_Fault by blast

text \<open>
  (C9) The Ethernet/IPv4/UDP parser succeeds exactly on the packets that carry an IPv4
  header with at least five words, protocol UDP, and room for the UDP header after the
  options; it then yields the offsets of the three headers.
\<close>

theorem parse_eth_ok_iff:
  "zereh_parse_eth_ipv4_udp pkt = Ret (eth, iph, udp) \<longleftrightarrow>
     eth = 0 \<and> iph = 14 \<and> bytes_at pkt 12 (be16 0x0800) \<and> 34 \<le> length pkt \<and>
     pkt ! 23 = 17 \<and> 5 \<le> unat (pkt ! 14 AND 15) \<and>
     udp = 14 + 4 * unat (pkt ! 14 AND 15) \<and> udp + 8 \<le> length pkt"
  by (rule parse_eth_iff)

text \<open>
  (C6) Round trip: parsing the bytes of a query for the labels \<open>ls\<close> gives back exactly its
  identifier, opcode, truncation flag, type, class and label count, the lower-cased dotted
  name in a NUL-padded buffer, and the FNV-1a hash of that name.
\<close>

theorem parse_encoded_query:
  assumes "list_all label_ok ls" and "ls \<noteq> []" and "length ls \<le> 31" and "length (dotted ls) \<le> 255"
    and "flags AND 0x8000 = 0" and "qd \<noteq> 0" and "length counts = 6"
    and "8 + length (dns_query_payload i flags qd counts ls qt qc extra) < 2 ^ 16"
  shows "zereh_parse_dns_query
      (pre @ udp_header sp dp (of_nat (8 + length (dns_query_payload i flags qd counts ls qt qc extra))) chk @
       dns_query_payload i flags qd counts ls qt qc extra @ trailer) (length pre)
    = Ret (query_meta i flags ls qt qc)"
  using assms by (rule parse_dns_encoded)

theorem parse_encoded_query_witness:
  "zereh_parse_dns_query
      ([] @ udp_header 4660 53 (of_nat (8 + length (dns_query_payload 7 0x0100 1 [0,0,0,0,0,0] [[87], [99, 79, 109]] 1 1 []))) 0 @
       dns_query_payload 7 0x0100 1 [0,0,0,0,0,0] [[87], [99, 79, 109]] 1 1 [] @ []) (length ([] :: bytes))
    = Ret (query_meta 7 0x0100 [[87], [99, 79, 109]] 1 1) \<and>
   qname_of (query_meta 7 0x0100 [[87], [99, 79, 109]] 1 1) = bytes_of ''w.com''"
proof
  show "qname_of (query_meta 7 0x0100 [[87], [99, 79, 109]] 1 1) = bytes_of ''w.com''"
    by (simp add: query_meta_def qname_of_def zereh_ascii_tolower_def bytes_of_def byte_of_def)
qed (rule parse_encoded_query; simp add: label_ok_def dns_query_payload_def be16_def wire_name_def)

text \<open>
  (C7) The DNS parser accepts nothing else: whenever it succeeds, the packet holds at the
  question a well-formed sequence of 1 to 31 labels (no compression pointer, each 1 to 63
  bytes, at most 255 characters in all) followed by the reported type and class, all of it
  within the UDP length and that within the packet; the header is that of a query with at
  least one question, and the metadata is the one of these labels.
\<close>

theorem parse_accepts_only_queries:
  assumes "zereh_parse_dns_query pkt udp = Ret meta"
  shows "\<exists>ls flags qd ulen. list_all label_ok ls \<and> ls \<noteq> [] \<and> length ls \<le> 31 \<and> length (dotted ls) \<le> 255 \<and>
    bytes_at pkt (udp + 8) (be16 (m_dns_id meta) @ be16 flags @ be16 qd) \<and> flags AND 0x8000 = 0 \<and> qd \<noteq> 0 \<and>
    bytes_at pkt (udp + 20) (wire_name ls @ be16 (m_qtype meta) @ be16 (m_qclass meta)) \<and>
    bytes_at pkt (udp + 4) (be16 ulen) \<and> udp + unat ulen \<le> length pkt \<and> 24 + length (wire_name ls) \<le> unat ulen \<and>
    meta = query_meta (m_dns_id meta) flags ls (m_qtype meta) (m_qclass meta)"
  using assms by (rule parse_dns_sound)

theorem parse_accepts_only_queries_witness:
  "\<exists>pkt meta. zereh_parse_dns_query pkt 0 = Ret meta \<and> m_dns_id meta = 7 \<and>
     (\<exists>ls flags qd. ls \<noteq> [] \<and> bytes_at pkt 8 (be16 7 @ be16 flags @ be16 qd) \<and> qd \<noteq> 0 \<and>
        bytes_at pkt 20 (wire_name ls @ be16 1 @ be16 1) \<and> meta = query_meta 7 flags ls 1 1)"
proof -
  let ?pl = "dns_query_payload 7 0x0100 1 [0,0,0,0,0,0] [[87], [99, 79, 109]] 1 1 []"
  let ?pkt = "[] @ udp_header 4660 53 (of_nat (8 + length ?pl)) 0 @ ?pl @ []"
  let ?m = "query_meta 7 0x0100 [[87], [99, 79, 109]] 1 1"
  have r: "zereh_parse_dns_query ?pkt (length ([] :: bytes)) = Ret ?m"
    by (rule parse_dns_encoded)
      (simp_all add: label_ok_def dns_query_payload_def be16_def wire_name_def)
  have "m_dns_id ?m = 7" "m_qtype ?m = 1" "m_qclass ?m = 1"
    by (simp_all add: query_meta_def)
  then show ?thesis
    using r parse_accepts_only_queries [OF r] by (intro exI [of _ ?pkt] exI [of _ ?m]) auto
qed

end
