(* ===== verification/Zereh_Filters.thy ===== *)
theory Zereh_Filters
  imports Zereh_Dns_Parser "HOL-Library.Sublist"
begin

text \<open>
  The per-route filters of \<open>xdp/xdp_template.c\<close>: the data plane's SipHash, record types,
  name patterns, the Bloom filter, proof of work, the per-route rate limit and their
  conjunction \<open>zereh_apply_app_filters\<close>.

  A BPF map is the partial function its lookup computes; a store through the pointer a
  lookup returned updates it. A call of \<open>bpf_ktime_get_ns\<close> is a parameter, the reading
  \<open>now_ns\<close> of its call site: nothing relates the readings of different sites.

  Interfaces: \<open>qname_hash\<close> (the control plane's and the data plane's hash are one
  function, for FNV-1a and for SipHash), \<open>name_pattern\<close> (prefix and suffix tests) and
  \<open>bucketed_token\<close> (proof of work and Bloom filter accept a token of the current or the
  previous time bucket).
\<close>

section \<open>Definitions\<close>

abbreviation (input) "ZEREH_BLOOM_WORDS \<equiv> (1024 :: u32)"
abbreviation (input) "ZEREH_BLOOM_BITS \<equiv> (65536 :: u32)"
abbreviation (input) "ZEREH_MAX_HASH_FUNCTIONS \<equiv> (8 :: nat)"

subsection \<open>Hashing the name\<close>

definition xdp_rotl64 :: "u64 \<Rightarrow> nat \<Rightarrow> u64" where
  "xdp_rotl64 x b = push_bit b x OR drop_bit (64 - b) x"

fun xdp_sipround :: "sip_state \<Rightarrow> sip_state" where
  "xdp_sipround (v0, v1, v2, v3) = (
     let v0 = v0 + v1; v1 = xdp_rotl64 v1 13; v1 = v1 XOR v0; v0 = xdp_rotl64 v0 32;
         v2 = v2 + v3; v3 = xdp_rotl64 v3 16; v3 = v3 XOR v2;
         v0 = v0 + v3; v3 = xdp_rotl64 v3 21; v3 = v3 XOR v0;
         v2 = v2 + v1; v1 = xdp_rotl64 v1 17; v1 = v1 XOR v2; v2 = xdp_rotl64 v2 32
     in (v0, v1, v2, v3))"

text \<open>\<open>m |= qname[off + j] << (8 * j)\<close>, \<open>k\<close> iterations remaining\<close>

fun sip_gather :: "nat \<Rightarrow> u64 \<Rightarrow> bytes \<Rightarrow> nat \<Rightarrow> nat \<Rightarrow> u64" where
  "sip_gather 0 m qname off j = m"
| "sip_gather (Suc k) m qname off j =
     sip_gather k (m OR push_bit (8 * j) (ucast (qname ! (off + j)))) qname off (j + 1)"

fun xdp_sip_compress :: "sip_state \<Rightarrow> u64 \<Rightarrow> sip_state" where
  "xdp_sip_compress (v0, v1, v2, v3) m =
     (case xdp_sipround (xdp_sipround (v0, v1, v2, v3 XOR m)) of
        (w0, w1, w2, w3) \<Rightarrow> (w0 XOR m, w1, w2, w3))"

fun xdp_sip_finish :: "sip_state \<Rightarrow> u64" where
  "xdp_sip_finish (v0, v1, v2, v3) =
     (case xdp_sipround (xdp_sipround (xdp_sipround (xdp_sipround (v0, v1, v2 XOR 0xff, v3)))) of
        (w0, w1, w2, w3) \<Rightarrow> w0 XOR w1 XOR w2 XOR w3)"

text \<open>\<open>for (blk = 0; blk < 31; blk++)\<close>, \<open>k\<close> iterations remaining\<close>

fun xdp_sip_blocks :: "nat \<Rightarrow> nat \<Rightarrow> bytes \<Rightarrow> nat \<Rightarrow> sip_state \<Rightarrow> sip_state" where
  "xdp_sip_blocks 0 blk qname qname_len v = v"
| "xdp_sip_blocks (Suc k) blk qname qname_len v =
     (let off = blk * 8 in
      if off + 8 > qname_len then v
      else xdp_sip_blocks k (blk + 1) qname qname_len
             (xdp_sip_compress v (sip_gather 8 0 qname off 0)))"

text \<open>\<open>for (i = 0; i < 7; i++)\<close> over the bytes after the last whole block\<close>

fun xdp_sip_tail :: "nat \<Rightarrow> nat \<Rightarrow> u64 \<Rightarrow> bytes \<Rightarrow> nat \<Rightarrow> nat \<Rightarrow> u64" where
  "xdp_sip_tail 0 i b qname off qname_len = b"
| "xdp_sip_tail (Suc k) i b qname off qname_len =
     (if off + i \<ge> qname_len then b
      else xdp_sip_tail k (i + 1) (b OR push_bit (8 * i) (ucast (qname ! (off + i)))) qname off qname_len)"

definition zereh_siphash24_qname :: "bytes \<Rightarrow> u16 \<Rightarrow> u64" where
  "zereh_siphash24_qname qname qname_len = (
     let v = (0x736f6d6570736575 XOR 0x0706050403020100, 0x646f72616e646f6d XOR 0x0f0e0d0c0b0a0908,
              0x6c7967656e657261 XOR 0x0706050403020100, 0x7465646279746573 XOR 0x0f0e0d0c0b0a0908);
         b = push_bit 56 (ucast qname_len);
         v = xdp_sip_blocks 31 0 qname (unat qname_len) v;
         off = unat (qname_len div 8) * 8;
         b = xdp_sip_tail 7 0 b qname off (unat qname_len)
     in xdp_sip_finish (xdp_sip_compress v b))"

text \<open>\<open>ZEREH_HASH_ALGO == ZEREH_HASH_SIPHASH\<close> is decided when the template is instantiated.\<close>

definition zereh_route_hash :: "u32 \<Rightarrow> dns_query_meta \<Rightarrow> u64" where
  "zereh_route_hash hash_algo qmeta =
     (if hash_algo = 1 then zereh_siphash24_qname (m_qname qmeta) (m_qname_len qmeta)
      else m_qname_hash qmeta)"

subsection \<open>Record types and name patterns\<close>

definition zereh_type_allowed :: "u16 \<Rightarrow> u32 \<Rightarrow> bool" where
  "zereh_type_allowed qtype rrmask =
     (if qtype = 1 \<and> rrmask AND 0x1 \<noteq> 0 then True
      else if qtype = 28 \<and> rrmask AND 0x2 \<noteq> 0 then True
      else if qtype = 16 \<and> rrmask AND 0x4 \<noteq> 0 then True
      else if qtype = 255 \<and> rrmask AND 0x8 \<noteq> 0 then True
      else False)"

text \<open>\<open>for (i = 0; i < 128; i++)\<close>, comparing from \<open>start\<close>; \<open>k\<close> iterations remain.\<close>

fun match_loop :: "nat \<Rightarrow> nat \<Rightarrow> bytes \<Rightarrow> nat \<Rightarrow> bytes \<Rightarrow> nat \<Rightarrow> bool" where
  "match_loop 0 i qname start pat pat_len = False"
| "match_loop (Suc k) i qname start pat pat_len =
     (if i \<ge> pat_len then True
      else if qname ! (start + i) \<noteq> pat ! i then False
      else match_loop k (i + 1) qname start pat pat_len)"

definition zereh_match_prefix :: "bytes \<Rightarrow> u16 \<Rightarrow> bytes \<Rightarrow> u16 \<Rightarrow> bool" where
  "zereh_match_prefix qname qname_len pat pat_len =
     (if pat_len = 0 then True
      else if pat_len > qname_len then False
      else match_loop 128 0 qname 0 pat (unat pat_len))"

definition zereh_match_suffix :: "bytes \<Rightarrow> u16 \<Rightarrow> bytes \<Rightarrow> u16 \<Rightarrow> bool" where
  "zereh_match_suffix qname qname_len pat pat_len =
     (if pat_len = 0 then True
      else if pat_len > qname_len then False
      else match_loop 128 0 qname (unat (qname_len - pat_len)) pat (unat pat_len))"

subsection \<open>Bloom filter\<close>

definition zereh_mix64 :: "u64 \<Rightarrow> u64" where
  "zereh_mix64 x = (
     let x = x XOR drop_bit 33 x; x = x * 0xff51afd7ed558ccd;
         x = x XOR drop_bit 33 x; x = x * 0xc4ceb9fe1a85ec53;
         x = x XOR drop_bit 33 x
     in x)"

definition zereh_bloom_test_bit :: "(u32 \<rightharpoonup> u64) \<Rightarrow> u32 \<Rightarrow> u32 \<Rightarrow> bool" where
  "zereh_bloom_test_bit pow_bloom b bloom_bits = (
     let idx = drop_bit 6 b; off = b AND 63 in
     if bloom_bits = 0 \<or> bloom_bits > ZEREH_BLOOM_BITS \<or> b \<ge> bloom_bits then False
     else if idx \<ge> ZEREH_BLOOM_WORDS then False
     else case pow_bloom idx of None \<Rightarrow> False
          | Some word \<Rightarrow> drop_bit (unat off) word AND 1 \<noteq> 0)"

definition bloom_bit :: "u64 \<Rightarrow> u32 \<Rightarrow> nat \<Rightarrow> u64 \<Rightarrow> u32" where
  "bloom_bit qname_hash bloom_bits k bucket = (
     let mixed = zereh_mix64 (qname_hash XOR ((of_nat k + 1) * 0x9e3779b97f4a7c15) XOR
                              (bucket * 0x517cc1b727220a95))
     in ucast (mixed mod ucast bloom_bits))"

text \<open>\<open>for (k = 0; k < ZEREH_MAX_HASH_FUNCTIONS; k++)\<close>, \<open>n\<close> iterations remaining\<close>

fun bloom_match_loop :: "nat \<Rightarrow> nat \<Rightarrow> (u32 \<rightharpoonup> u64) \<Rightarrow> u64 \<Rightarrow> u32 \<Rightarrow> u8 \<Rightarrow> u64 \<Rightarrow> bool" where
  "bloom_match_loop 0 k pow_bloom qname_hash bloom_bits hash_functions bucket = True"
| "bloom_match_loop (Suc n) k pow_bloom qname_hash bloom_bits hash_functions bucket =
     (if k \<ge> unat hash_functions then True
      else if \<not> zereh_bloom_test_bit pow_bloom (bloom_bit qname_hash bloom_bits k bucket) bloom_bits
      then False
      else bloom_match_loop n (k + 1) pow_bloom qname_hash bloom_bits hash_functions bucket)"

definition zereh_bloom_bucket_match :: "(u32 \<rightharpoonup> u64) \<Rightarrow> u64 \<Rightarrow> u32 \<Rightarrow> u8 \<Rightarrow> u64 \<Rightarrow> bool" where
  "zereh_bloom_bucket_match pow_bloom qname_hash bloom_bits hash_functions bucket =
     bloom_match_loop ZEREH_MAX_HASH_FUNCTIONS 0 pow_bloom qname_hash bloom_bits hash_functions bucket"

definition zereh_bloom_allow :: "(u32 \<rightharpoonup> u64) \<Rightarrow> u64 \<Rightarrow> u64 \<Rightarrow> u32 \<Rightarrow> u8 \<Rightarrow> u16 \<Rightarrow> bool" where
  "zereh_bloom_allow pow_bloom now_ns qname_hash bloom_bits hash_functions time_window = (
     if hash_functions = 0 \<or> bloom_bits < 64 \<or> bloom_bits > ZEREH_BLOOM_BITS then False
     else if time_window = 0
     then zereh_bloom_bucket_match pow_bloom qname_hash bloom_bits hash_functions 0
     else let now_sec = now_ns div 1000000000; bucket = now_sec div ucast time_window in
          if zereh_bloom_bucket_match pow_bloom qname_hash bloom_bits hash_functions bucket then True
          else if bucket > 0 \<and>
                  zereh_bloom_bucket_match pow_bloom qname_hash bloom_bits hash_functions (bucket - 1)
          then True else False)"

subsection \<open>Proof of work\<close>

text \<open>\<open>__builtin_clzll\<close>: the zero bits above the highest set bit.\<close>

fun clz_from :: "nat \<Rightarrow> u64 \<Rightarrow> nat" where
  "clz_from 0 x = 0"
| "clz_from (Suc n) x = (if bit x n then 0 else Suc (clz_from n x))"

definition zereh_pow_bucket_ok :: "u64 \<Rightarrow> u16 \<Rightarrow> u8 \<Rightarrow> u64 \<Rightarrow> bool" where
  "zereh_pow_bucket_ok qname_hash dns_id difficulty bucket = (
     let mixed = qname_hash XOR (ucast dns_id * 0x9e3779b97f4a7c15) XOR (bucket * 0x517cc1b727220a95);
         mixed = zereh_mix64 mixed;
         leading = (if mixed = 0 then 64 else of_nat (clz_from 64 mixed)) :: u8
     in leading \<ge> difficulty)"

definition zereh_pow_allow :: "u64 \<Rightarrow> u64 \<Rightarrow> u16 \<Rightarrow> u8 \<Rightarrow> u16 \<Rightarrow> bool" where
  "zereh_pow_allow now_ns qname_hash dns_id difficulty time_window = (
     if difficulty = 0 then True
     else if time_window = 0 then zereh_pow_bucket_ok qname_hash dns_id difficulty 0
     else let now_sec = now_ns div 1000000000; bucket = now_sec div ucast time_window in
          if zereh_pow_bucket_ok qname_hash dns_id difficulty bucket then True
          else if bucket > 0 \<and> zereh_pow_bucket_ok qname_hash dns_id difficulty (bucket - 1)
          then True else False)"

subsection \<open>Rate limit\<close>

record rate_state =
  window_sec :: u64
  count :: u32
  rate_pad :: u32

type_synonym rate_map = "u32 \<rightharpoonup> rate_state"

text \<open>
  \<open>entries\<close> is \<open>ZEREH_RATE_STATE_ENTRIES\<close>; the map is the running CPU's copy of
  \<open>route_rate_state\<close>. The result is the verdict and the map after the stores.
\<close>

definition zereh_rate_limit_allow :: "u32 \<Rightarrow> u64 \<Rightarrow> rate_map \<Rightarrow> u32 \<Rightarrow> u32 \<Rightarrow> bool \<times> rate_map" where
  "zereh_rate_limit_allow entries now_ns rm route_id qps = (
     if qps = 0 then (True, rm)
     else if route_id \<ge> entries then (False, rm)
     else case rm route_id of None \<Rightarrow> (False, rm)
     | Some state \<Rightarrow>
         let now_sec = now_ns div 1000000000 in
         if window_sec state \<noteq> now_sec
         then (True, rm(route_id \<mapsto> state\<lparr>window_sec := now_sec, count := 1\<rparr>))
         else if count state \<ge> qps then (False, rm)
         else (True, rm(route_id \<mapsto> state\<lparr>count := count state + 1\<rparr>)))"

subsection \<open>The conjunction\<close>

text \<open>The readings of the three clock call sites during one packet.\<close>

record clock_reads =
  t_rate :: u64
  t_pow :: u64
  t_bloom :: u64

definition zereh_apply_app_filters ::
  "u32 \<Rightarrow> (u32 \<rightharpoonup> u64) \<Rightarrow> clock_reads \<Rightarrow> rate_map \<Rightarrow> dns_query_meta \<Rightarrow> bytes \<Rightarrow> u16 \<Rightarrow> bytes \<Rightarrow> u16 \<Rightarrow>
   u8 \<Rightarrow> u8 \<Rightarrow> u16 \<Rightarrow> u16 \<Rightarrow> u64 \<Rightarrow> u32 \<Rightarrow> u32 \<Rightarrow> u8 \<Rightarrow> u16 \<Rightarrow> u8 \<Rightarrow> u32 \<Rightarrow> u8 \<Rightarrow> u16 \<Rightarrow> u32 \<Rightarrow>
   bool \<times> rate_map" where
  "zereh_apply_app_filters entries pow_bloom clk rm qmeta pfx prefix_len sfx suffix_len
     min_labels max_labels qname_min_len qname_max_len route_hash route_id rrtype_mask
     pow_difficulty pow_time_window bloom_required bloom_size bloom_hash_functions
     bloom_time_window rate_limit_qps = (
     if m_label_depth qmeta < min_labels \<or> m_label_depth qmeta > max_labels then (False, rm) else
     if m_qname_len qmeta < qname_min_len \<or> m_qname_len qmeta > qname_max_len then (False, rm) else
     if \<not> zereh_type_allowed (m_qtype qmeta) rrtype_mask then (False, rm) else
     if \<not> zereh_match_prefix (m_qname qmeta) (m_qname_len qmeta) pfx prefix_len then (False, rm) else
     if \<not> zereh_match_suffix (m_qname qmeta) (m_qname_len qmeta) sfx suffix_len then (False, rm) else
     case zereh_rate_limit_allow entries (t_rate clk) rm route_id rate_limit_qps of (ok, rm') \<Rightarrow>
     if \<not> ok then (False, rm') else
     if \<not> zereh_pow_allow (t_pow clk) route_hash (m_dns_id qmeta) pow_difficulty pow_time_window
     then (False, rm') else
     if bloom_required \<noteq> 0 \<and>
        \<not> zereh_bloom_allow pow_bloom (t_bloom clk) route_hash bloom_size bloom_hash_functions bloom_time_window
     then (False, rm') else
     (True, rm'))"

section \<open>The two SipHash implementations\<close>

lemma xdp_rotl64_eq: "xdp_rotl64 = zereh_rotl64"
  by (simp add: fun_eq_iff xdp_rotl64_def zereh_rotl64_def)

lemma xdp_sipround_eq: "xdp_sipround v = zereh_sipround v"
  by (cases v) (simp add: xdp_rotl64_eq)

lemma xdp_sip_compress_eq: "xdp_sip_compress v m = sip_compress v m"
  by (cases v) (simp add: xdp_sipround_eq del: xdp_sipround.simps zereh_sipround.simps)

lemma xdp_sip_finish_eq: "xdp_sip_finish v = sip_finish v"
  by (cases v) (simp add: xdp_sipround_eq del: xdp_sipround.simps zereh_sipround.simps)

lemma sip_gather_word:
  "off + 8 \<le> length q \<Longrightarrow> sip_gather 8 0 q off 0 = sip_word (drop off q)"
  by (simp add: eval_nat_numeral sip_word_def or.assoc)

lemma sip_blocks_small: "length d < 8 \<Longrightarrow> sip_blocks v d = (v, d)"
  by (subst sip_blocks.simps) simp

lemma xdp_sip_blocks_eq:
  assumes "n \<le> length q" and "8 * blk \<le> n" and "n < 8 * (blk + k) + 8"
  shows "xdp_sip_blocks k blk q n v = fst (sip_blocks v (drop (8 * blk) (take n q)))"
  using assms
proof (induction k arbitrary: blk v)
  case 0
  then show ?case by (simp add: sip_blocks_small)
next
  case (Suc k)
  show ?case
  proof (cases "8 * blk + 8 \<le> n")
    case True
    let ?d = "drop (8 * blk) (take n q)"
    have "sip_word ?d = sip_word (drop (8 * blk) q)"
      using sip_word_take [of "n - 8 * blk" "drop (8 * blk) q"] True by (simp add: drop_take)
    moreover have "drop 8 ?d = drop (8 * (blk + 1)) (take n q)"
      by (simp add: ac_simps)
    moreover have "8 \<le> length ?d" using True Suc.prems by simp
    ultimately have "sip_blocks v ?d = sip_blocks (sip_compress v (sip_word (drop (8 * blk) q))) (drop (8 * (blk + 1)) (take n q))"
      by (subst sip_blocks.simps) simp
    moreover have "sip_gather 8 0 q (8 * blk) 0 = sip_word (drop (8 * blk) q)"
      using True Suc.prems by (intro sip_gather_word) simp
    moreover have "xdp_sip_blocks k (blk + 1) q n w = fst (sip_blocks w (drop (8 * (blk + 1)) (take n q)))" for w
      using True Suc.prems by (intro Suc.IH) auto
    ultimately show ?thesis
      using True by (simp add: Let_def xdp_sip_compress_eq mult.commute)
  next
    case False
    then show ?thesis using Suc.prems by (simp add: Let_def mult.commute sip_blocks_small)
  qed
qed

lemma sip_blocks_rest: "snd (sip_blocks v d) = drop (8 * (length d div 8)) d"
proof (induction v d rule: sip_blocks.induct)
  case (1 v d)
  show ?case
  proof (cases "8 \<le> length d")
    case True
    then show ?thesis
      using 1 by (subst sip_blocks.simps) (simp add: le_div_geq algebra_simps)
  qed (simp add: sip_blocks_small)
qed

lemma xdp_sip_tail_eq:
  assumes "n \<le> length q" and "n \<le> off + i + k"
  shows "xdp_sip_tail k i b q off n = sip_tail b i (drop (off + i) (take n q))"
  using assms
proof (induction k arbitrary: i b)
  case (Suc k)
  show ?case
  proof (cases "off + i < n")
    case True
    then have "drop (off + i) (take n q) = q ! (off + i) # drop (off + (i + 1)) (take n q)"
      using Suc.prems by (simp add: Cons_nth_drop_Suc [symmetric])
    then show ?thesis using True Suc.IH [of "i + 1"] Suc.prems by simp
  qed simp
qed simp

lemma siphash_qname_eq:
  assumes "unat n \<le> 255" and "unat n \<le> length q"
  shows "zereh_siphash24_qname q n = zereh_siphash24_bytes (take (unat n) q)"
proof -
  let ?d = "take (unat n) q"
  have len: "length ?d = unat n" using assms by simp
  have w: "(of_nat (unat n) :: u64) = ucast n" by simp
  have blk: "xdp_sip_blocks 31 0 q (unat n) sip_init = fst (sip_blocks sip_init ?d)"
    using xdp_sip_blocks_eq [of "unat n" q 0 31] assms by simp
  have off: "unat (n div 8) * 8 = 8 * (unat n div 8)" by (simp add: unat_div)
  have "unat n \<le> 8 * (unat n div 8) + 7"
    using mult_div_mod_eq [of 8 "unat n"] mod_less_divisor [of 8 "unat n"] by linarith
  then have tl: "xdp_sip_tail 7 0 b q (8 * (unat n div 8)) (unat n) = sip_tail b 0 (snd (sip_blocks sip_init ?d))" for b
    using xdp_sip_tail_eq [of "unat n" q "8 * (unat n div 8)" 0 7 b] assms len
    by (simp add: sip_blocks_rest)
  have i: "(0x736f6d6570736575 XOR 0x0706050403020100, 0x646f72616e646f6d XOR 0x0f0e0d0c0b0a0908,
              0x6c7967656e657261 XOR 0x0706050403020100, 0x7465646279746573 XOR 0x0f0e0d0c0b0a0908) = sip_init"
    unfolding sip_init_def ZEREH_SIPHASH_K0_def ZEREH_SIPHASH_K1_def ..
  show ?thesis
    unfolding zereh_siphash24_qname_def zereh_siphash24_bytes_def Let_def i blk off tl len w
    by (simp add: xdp_sip_compress_eq xdp_sip_finish_eq split_beta)
qed

section \<open>Patterns\<close>

lemma match_loop_iff:
  "i \<le> n \<Longrightarrow> match_loop k i q st p n \<longleftrightarrow> n < i + k \<and> (\<forall>j. i \<le> j \<and> j < n \<longrightarrow> q ! (st + j) = p ! j)"
proof (induction k arbitrary: i)
  case (Suc k)
  have "(\<forall>j. i \<le> j \<and> j < n \<longrightarrow> q ! (st + j) = p ! j) \<longleftrightarrow>
        q ! (st + i) = p ! i \<and> (\<forall>j. Suc i \<le> j \<and> j < n \<longrightarrow> q ! (st + j) = p ! j)" if "i < n"
    using that by (metis Suc_leI le_eq_less_or_eq less_imp_le_nat Suc_le_lessD)
  then show ?case using Suc.IH [of "i + 1"] Suc.prems by auto
qed auto

lemma match_loop_window:
  assumes "length p = n" and "st + n \<le> length q"
  shows "match_loop 128 0 q st p n \<longleftrightarrow> n \<le> 127 \<and> take n (drop st q) = p"
  using assms by (auto simp: match_loop_iff list_eq_iff_nth_eq)

text \<open>
  A pattern test: the relation \<open>rel pat name\<close>, for patterns of at most 127 bytes; the
  comparison loops stop at 128 iterations and a longer pattern never matches.
\<close>

locale name_pattern =
  fixes mtch :: "bytes \<Rightarrow> u16 \<Rightarrow> bytes \<Rightarrow> u16 \<Rightarrow> bool"
    and rel :: "bytes \<Rightarrow> bytes \<Rightarrow> bool"
  assumes mtch_iff: "unat n \<le> length q \<Longrightarrow> length p = unat pl \<Longrightarrow>
      mtch q n p pl \<longleftrightarrow> length p \<le> 127 \<and> rel p (take (unat n) q)"
    and rel_Nil: "rel [] name"
    and rel_length: "rel p name \<Longrightarrow> length p \<le> length name"
begin

lemma mtch_meta:
  assumes "meta_buf_ok m" and "length p < 2 ^ 16"
  shows "mtch (m_qname m) (m_qname_len m) p (of_nat (length p)) \<longleftrightarrow> length p \<le> 127 \<and> rel p (qname_of m)"
  using assms by (subst mtch_iff) (auto simp: meta_buf_ok_def qname_of_def unat_of_nat)

lemma mtch_empty: "meta_buf_ok m \<Longrightarrow> mtch (m_qname m) (m_qname_len m) [] 0"
  using mtch_meta [of m "[]"] rel_Nil by simp

lemma mtch_too_long:
  "meta_buf_ok m \<Longrightarrow> 128 \<le> length p \<Longrightarrow> length p < 2 ^ 16 \<Longrightarrow>
     \<not> mtch (m_qname m) (m_qname_len m) p (of_nat (length p))"
  by (simp add: mtch_meta)

lemma mtch_longer_name: 
  "meta_buf_ok m \<Longrightarrow> length p < 2 ^ 16 \<Longrightarrow> mtch (m_qname m) (m_qname_len m) p (of_nat (length p)) \<Longrightarrow>
     length p \<le> unat (m_qname_len m)"
  using rel_length [of p "qname_of m"] by (simp add: mtch_meta qname_of_def meta_buf_ok_def)

end

lemma word_zero_length: "length p = unat (pl :: u16) \<Longrightarrow> pl = 0 \<longleftrightarrow> p = []"
  by (metis length_0_conv unat_eq_0)

interpretation prefix_pattern: name_pattern zereh_match_prefix prefix
proof
  fix q p :: bytes and n pl :: u16
  assume a: "unat n \<le> length q" "length p = unat pl"
  show "zereh_match_prefix q n p pl \<longleftrightarrow> length p \<le> 127 \<and> prefix p (take (unat n) q)"
  proof (cases "pl \<le> n")
    case True
    then have "unat pl \<le> unat n" by (simp add: word_le_nat_alt)
    moreover from this have "take (unat pl) q = p \<longleftrightarrow> prefix p (take (unat n) q)"
      using a by (auto simp: prefix_def) (metis append_take_drop_id min.absorb1 take_take, 
         metis append_eq_conv_conj take_take min.absorb1)
    ultimately show ?thesis
      using a True match_loop_window [of p "unat pl" 0 q] word_zero_length [OF a(2)]
      by (auto simp: zereh_match_prefix_def)
  next
    case False
    then have "unat n < length p" using a by (simp add: word_le_nat_alt)
    then have "\<not> prefix p (take (unat n) q)" by (auto dest: prefix_length_le)
    then show ?thesis using False by (auto simp: zereh_match_prefix_def)
  qed
qed (auto dest: prefix_length_le)

lemma suffix_iff_drop: "length p \<le> length w \<Longrightarrow> suffix p w \<longleftrightarrow> drop (length w - length p) w = p"
  by (auto simp: suffix_def) (metis append_take_drop_id)

interpretation suffix_pattern: name_pattern zereh_match_suffix suffix
proof
  fix q p :: bytes and n pl :: u16
  assume a: "unat n \<le> length q" "length p = unat pl"
  show "zereh_match_suffix q n p pl \<longleftrightarrow> length p \<le> 127 \<and> suffix p (take (unat n) q)"
  proof (cases "pl \<le> n")
    case True
    then have le: "unat pl \<le> unat n" by (simp add: word_le_nat_alt)
    moreover have "unat (n - pl) = unat n - unat pl" using True by (rule unat_sub)
    moreover have "take (unat pl) (drop (unat n - unat pl) q) = drop (unat n - unat pl) (take (unat n) q)"
      using le by (simp add: drop_take)
    moreover have "drop (unat n - unat pl) (take (unat n) q) = p \<longleftrightarrow> suffix p (take (unat n) q)"
      using suffix_iff_drop [of p "take (unat n) q"] a le by simp
    ultimately show ?thesis
      using a True match_loop_window [of p "unat pl" "unat n - unat pl" q] word_zero_length [OF a(2)]
      by (auto simp: zereh_match_suffix_def)
  next
    case False
    then have "unat n < length p" using a by (simp add: word_le_nat_alt)
    then have "\<not> suffix p (take (unat n) q)" by (auto dest: suffix_length_le)
    then show ?thesis using False by (auto simp: zereh_match_suffix_def)
  qed
qed (auto dest: suffix_length_le)


section \<open>Tokens that are valid for a time bucket\<close>

lemma unat_ucast_16_64 [simp]: "unat (ucast (c :: u16) :: u64) = unat c"
  using unsigned_less [of c, where ?'a = nat] by (simp add: unsigned_ucast_eq take_bit_nat_eq_self_iff)

text \<open>
  Proof of work and Bloom filter accept a token that is good for the bucket of the current
  time or for the one before: \<open>ok\<close> is the test for one bucket, \<open>allow now_ns window\<close> the
  decision at a time.
\<close>

definition time_bucket :: "u64 \<Rightarrow> u16 \<Rightarrow> u64" where
  "time_bucket now_ns time_window = now_ns div 1000000000 div ucast time_window"

locale bucketed_token =
  fixes allow :: "u64 \<Rightarrow> u16 \<Rightarrow> bool"
    and ok :: "u64 \<Rightarrow> bool"
  assumes allow_no_window: "allow now_ns 0 = ok 0"
    and allow_window: "w \<noteq> 0 \<Longrightarrow> allow now_ns w \<longleftrightarrow>
        ok (time_bucket now_ns w) \<or> 0 < time_bucket now_ns w \<and> ok (time_bucket now_ns w - 1)"
begin

text \<open>A token of the bucket of time \<open>t\<close> is accepted for at least one whole window from \<open>t\<close> on.\<close>

lemma token_lifetime:
  assumes "w \<noteq> 0" and "ok (time_bucket t w)" and "t \<le> t'"
    and "unat t' div 1000000000 < unat t div 1000000000 + unat w"
  shows "allow t' w"
proof -
  define b where "b = unat (time_bucket t w)"
  define b' where "b' = unat (time_bucket t' w)"
  have w: "0 < unat w" using assms(1) by (simp add: unat_gt_0)
  have b: "b = unat t div 1000000000 div unat w" "b' = unat t' div 1000000000 div unat w"
    by (simp_all add: b_def b'_def time_bucket_def unat_div)
  have "b \<le> b'" using assms(3) by (simp add: b div_le_mono word_le_nat_alt)
  moreover have "b' \<le> (unat t div 1000000000 + unat w) div unat w"
    unfolding b using assms(4) by (intro div_le_mono) simp
  then have "b' \<le> b + 1" using div_add_self2 [of "unat w" "unat t div 1000000000"] w b by simp
  ultimately consider "b' = b" | "b' = b + 1" by linarith
  then show ?thesis
  proof cases
    case 1
    then have "time_bucket t' w = time_bucket t w" by (simp add: b_def b'_def word_unat_eq_iff)
    then show ?thesis using assms(1,2) allow_window by simp
  next
    case 2
    then have gt: "0 < time_bucket t' w" by (simp add: b'_def word_less_nat_alt)
    then have "unat (time_bucket t' w - 1) = b" using 2 unat_minus_one [of "time_bucket t' w"]
      by (simp add: b'_def)
    then have "time_bucket t' w - 1 = time_bucket t w" by (simp add: b_def word_unat_eq_iff)
    then show ?thesis using assms(1,2) gt allow_window by simp
  qed
qed

text \<open>At a time, exactly the tokens of its bucket and of the bucket before it are accepted.\<close>

lemma allow_iff_bucket:
  assumes "w \<noteq> 0"
  shows "allow t w \<longleftrightarrow>
    (\<exists>b. ok b \<and> unat b \<le> unat t div 1000000000 div unat w \<and> unat t div 1000000000 div unat w \<le> unat b + 1)"
proof -
  have B: "unat t div 1000000000 div unat w = unat (time_bucket t w)" by (simp add: time_bucket_def unat_div)
  have "unat b \<le> unat (time_bucket t w) \<and> unat (time_bucket t w) \<le> unat b + 1 \<longleftrightarrow>
      b = time_bucket t w \<or> 0 < time_bucket t w \<and> b = time_bucket t w - 1" for b
  proof (cases "time_bucket t w = 0")
    case False
    then have "unat (time_bucket t w - 1) + 1 = unat (time_bucket t w)"
      using unat_minus_one [of "time_bucket t w"] by (simp add: unat_gt_0)
    then show ?thesis using False by (auto simp: word_unat_eq_iff word_less_nat_alt)
  qed (auto simp: unat_eq_0)
  then show ?thesis unfolding B allow_window [OF assms] by auto
qed

end

text \<open>The two tests of a bucket, with their guards.\<close>

definition bloom_token_ok :: "(u32 \<rightharpoonup> u64) \<Rightarrow> u64 \<Rightarrow> u32 \<Rightarrow> u8 \<Rightarrow> u64 \<Rightarrow> bool" where
  "bloom_token_ok pow_bloom h bits fns b \<longleftrightarrow>
     fns \<noteq> 0 \<and> 64 \<le> bits \<and> bits \<le> 65536 \<and> zereh_bloom_bucket_match pow_bloom h bits fns b"

interpretation pow_token: bucketed_token
  "\<lambda>now w. zereh_pow_allow now h i d w" "zereh_pow_bucket_ok h i d" for h i d
  by unfold_locales (auto simp: zereh_pow_allow_def time_bucket_def zereh_pow_bucket_ok_def Let_def)

interpretation bloom_token: bucketed_token
  "\<lambda>now w. zereh_bloom_allow bl now h bits fns w" "bloom_token_ok bl h bits fns" for bl h bits fns
  by unfold_locales (auto simp: zereh_bloom_allow_def time_bucket_def bloom_token_ok_def Let_def)

section \<open>Proof of work\<close>

lemma bit_top: "unat (x :: u64) < 2 ^ Suc n \<Longrightarrow> bit x n \<longleftrightarrow> 2 ^ n \<le> unat x"
proof -
  assume a: "unat x < 2 ^ Suc n"
  have "bit x n \<longleftrightarrow> bit (unat x) n" by (simp add: bit_unsigned_iff)
  also have "\<dots> \<longleftrightarrow> odd (unat x div 2 ^ n)" by (simp add: bit_iff_odd)
  also have "\<dots> \<longleftrightarrow> 2 ^ n \<le> unat x"
  proof (cases "2 ^ n \<le> unat x")
    case True
    then have "unat x div 2 ^ n = 1" using a by (simp add: div_nat_eqI)
    then show ?thesis using True by simp
  qed simp
  finally show ?thesis .
qed

lemma clz_from_iff:
  "unat x < 2 ^ n \<Longrightarrow> d \<le> n \<Longrightarrow> d \<le> clz_from n x \<longleftrightarrow> unat x < 2 ^ (n - d)"
proof (induction n arbitrary: d)
  case (Suc n)
  show ?case
  proof (cases "bit x n")
    case True
    then have "2 ^ n \<le> unat x" using bit_top Suc.prems by blast
    moreover have "(2::nat) ^ (n - k) \<le> 2 ^ n" for k by (intro power_increasing) auto
    ultimately have "2 ^ (n - k) \<le> unat x" for k using le_trans by blast
    then show ?thesis using True Suc.prems by (cases d) (auto simp: not_less [symmetric])
  next
    case False
    then have "unat x < 2 ^ n" using bit_top Suc.prems by (metis not_le)
    then show ?thesis using Suc.IH [of "d - 1"] Suc.prems False by (cases d) auto
  qed
qed simp

lemma clz_from_le: "clz_from n x \<le> n"
  by (induction n) auto

lemma pow_bucket_ok_iff:
  assumes "unat d \<le> 64"
  shows "zereh_pow_bucket_ok h i d b \<longleftrightarrow>
    unat (zereh_mix64 (h XOR (ucast i * 0x9e3779b97f4a7c15) XOR (b * 0x517cc1b727220a95))) < 2 ^ (64 - unat d)"
    (is "_ \<longleftrightarrow> unat ?m < _")
proof -
  have lt: "unat ?m < 2 ^ 64" using unsigned_less [of ?m, where ?'a = nat] by simp
  have "clz_from 64 ?m \<le> 64" by (rule clz_from_le)
  then have "unat (of_nat (clz_from 64 ?m) :: u8) = clz_from 64 ?m" by (simp add: unat_of_nat)
  then show ?thesis
    using clz_from_iff [OF lt assms] assms
    by (auto simp: zereh_pow_bucket_ok_def Let_def word_le_nat_alt)
qed

section \<open>Bloom filter\<close>

lemma bloom_match_loop_iff:
  "bloom_match_loop n k bl h bits fns b \<longleftrightarrow>
     (\<forall>j. k \<le> j \<and> j < min (k + n) (unat fns) \<longrightarrow> zereh_bloom_test_bit bl (bloom_bit h bits j b) bits)"
proof (induction n arbitrary: k)
  case (Suc n)
  have "(\<forall>j. k \<le> j \<and> j < min (k + Suc n) (unat fns) \<longrightarrow> P j) \<longleftrightarrow>
     P k \<and> (\<forall>j. Suc k \<le> j \<and> j < min (Suc k + n) (unat fns) \<longrightarrow> P j)" if "k < unat fns" for P
    using that by (metis Suc_leI add_Suc_right add_Suc less_add_Suc1 le_eq_less_or_eq min_less_iff_conj Suc_le_lessD)
  then show ?case using Suc.IH [of "k + 1"] by auto
qed auto

lemma bloom_bucket_match_iff:
  "unat fns \<le> 8 \<Longrightarrow> zereh_bloom_bucket_match bl h bits fns b \<longleftrightarrow>
     (\<forall>j < unat fns. zereh_bloom_test_bit bl (bloom_bit h bits j b) bits)"
  by (auto simp: zereh_bloom_bucket_match_def bloom_match_loop_iff min_def)

lemma bloom_bit_less: "0 < bits \<Longrightarrow> bloom_bit h bits k b < bits"
proof -
  assume "0 < bits"
  then have g: "0 < unat bits" by (simp add: word_less_nat_alt)
  have u: "unat (ucast bits :: u64) = unat bits"
    using unsigned_less [of bits, where ?'a = nat] by (simp add: unsigned_ucast_eq take_bit_nat_eq_self_iff)
  have "unat (m mod ucast bits) < unat bits" for m :: u64 using g u by (simp add: unat_mod)
  moreover from this have "unat (ucast (m mod ucast bits) :: u32) = unat (m mod ucast bits)" for m :: u64
    using unsigned_less [of bits, where ?'a = nat]
    by (simp add: unsigned_ucast_eq take_bit_nat_eq_self_iff) (meson less_trans)
  ultimately show ?thesis by (simp add: bloom_bit_def word_less_nat_alt)
qed

section \<open>Rate limit\<close>

text \<open>A run: the packets (route, reading of the clock) in order, with the verdict of each.\<close>

fun rate_run :: "u32 \<Rightarrow> (u32 \<Rightarrow> u32) \<Rightarrow> rate_map \<Rightarrow> (u32 \<times> u64) list \<Rightarrow> (u32 \<times> u64 \<times> bool) list" where
  "rate_run entries qps rm [] = []"
| "rate_run entries qps rm ((i, now) # es) =
     (case zereh_rate_limit_allow entries now rm i (qps i) of
        (ok, rm') \<Rightarrow> (i, now, ok) # rate_run entries qps rm' es)"

abbreviation (input) "sec_of now \<equiv> now div (1000000000 :: u64)"

definition offered :: "u32 \<Rightarrow> u64 \<Rightarrow> (u32 \<times> u64) list \<Rightarrow> nat" where
  "offered i s es = length (filter (\<lambda>(j, now). j = i \<and> sec_of now = s) es)"

definition accepted :: "u32 \<Rightarrow> u64 \<Rightarrow> (u32 \<times> u64 \<times> bool) list \<Rightarrow> nat" where
  "accepted i s tr = length (filter (\<lambda>(j, now, ok). j = i \<and> sec_of now = s \<and> ok) tr)"

lemma offered_Cons [simp]: "offered i s ((j, now) # es) = (if j = i \<and> sec_of now = s then 1 else 0) + offered i s es"
  by (simp add: offered_def)
lemma offered_Nil [simp]: "offered i s [] = 0"
  by (simp add: offered_def)
lemma accepted_Cons [simp]:
  "accepted i s ((j, now, ok) # tr) = (if j = i \<and> sec_of now = s \<and> ok then 1 else 0) + accepted i s tr"
  by (simp add: accepted_def)
lemma accepted_Nil [simp]: "accepted i s [] = 0"
  by (simp add: accepted_def)

lemma rate_limit_frame:
  "j \<noteq> i \<Longrightarrow> snd (zereh_rate_limit_allow entries now rm j q) i = rm i"
  by (auto simp: zereh_rate_limit_allow_def Let_def split: option.splits)

text \<open>The effect of one packet on its own route's counter.\<close>

lemma rate_limit_own:
  assumes "rm i = Some st" and "i < entries" and "0 < q"
  shows "zereh_rate_limit_allow entries now rm i q =
    (if window_sec st \<noteq> sec_of now then (True, rm(i \<mapsto> st\<lparr>window_sec := sec_of now, count := 1\<rparr>))
     else if count st \<ge> q then (False, rm) else (True, rm(i \<mapsto> st\<lparr>count := count st + 1\<rparr>)))"
  using assms by (auto simp: zereh_rate_limit_allow_def Let_def)

lemma unat_count_inc: "c < (q :: u32) \<Longrightarrow> unat (c + 1) = unat c + 1"
  using unsigned_less [of q, where ?'a = nat] by (simp add: unat_word_ariths word_less_nat_alt)

lemma unat_one_le: "0 < (q :: u32) \<Longrightarrow> 1 \<le> unat q"
  by (simp add: word_less_nat_alt)

lemma rate_run_accepted:
  assumes "rm i = Some st" and "i < entries" and "0 < qps i"
    and "sorted (map snd es)" and "\<forall>(j, now) \<in> set es. window_sec st \<le> sec_of now"
  shows "accepted i s (rate_run entries qps rm es) =
    (if s = window_sec st then min (offered i s es) (unat (qps i) - unat (count st))
     else min (offered i s es) (unat (qps i)))"
  using assms
proof (induction es arbitrary: rm st)
  case (Cons e es)
  obtain j now where e: "e = (j, now)" by (cases e)
  have srt: "sorted (map snd es)" using Cons.prems(4) by simp
  have later: "\<forall>(k, t) \<in> set es. sec_of now \<le> sec_of t"
    using Cons.prems(4) e by (auto simp: word_le_nat_alt unat_div div_le_mono)
  have win: "\<forall>(k, t) \<in> set es. window_sec st \<le> sec_of t" "window_sec st \<le> sec_of now" using Cons.prems(5) e by auto
  note one = unat_one_le [OF Cons.prems(3)]
  show ?case
  proof (cases "j = i")
    case False
    obtain ok rm' where r: "zereh_rate_limit_allow entries now rm j (qps j) = (ok, rm')" by fastforce
    then have "rm' i = Some st" using rate_limit_frame [OF False, of entries now rm "qps j"] Cons.prems(1) by simp
    then show ?thesis using Cons.IH [OF _ Cons.prems(2,3) srt win(1)] e r False by simp
  next
    case True
    consider (new) "window_sec st \<noteq> sec_of now" | (full) "window_sec st = sec_of now" "qps i \<le> count st"
      | (more) "window_sec st = sec_of now" "count st < qps i" by fastforce
    then show ?thesis
    proof cases
      case new
      let ?st = "st\<lparr>window_sec := sec_of now, count := 1\<rparr>"
      have none: "offered i (window_sec st) es = 0"
        using new later win(2) by (fastforce simp: offered_def filter_empty_conv)
      have "accepted i s (rate_run entries qps (rm(i \<mapsto> ?st)) es) =
          (if s = sec_of now then min (offered i s es) (unat (qps i) - 1) else min (offered i s es) (unat (qps i)))"
        by (subst Cons.IH [OF _ Cons.prems(2,3) srt, of _ ?st]) (use later in auto)
      then show ?thesis
        using new True e one none rate_limit_own [of rm i st, OF Cons.prems(1,2,3)] by auto
    next
      case full
      then have "unat (qps i) \<le> unat (count st)" by (simp add: word_le_nat_alt)
      then show ?thesis
        using Cons.IH [of rm st, OF Cons.prems(1,2,3) srt win(1)] full True e
          rate_limit_own [of rm i st, OF Cons.prems(1,2,3)] by auto
    next
      case more
      let ?st = "st\<lparr>count := count st + 1\<rparr>"
      have lt: "unat (count st) < unat (qps i)" using more by (simp add: word_less_nat_alt)
      have "accepted i s (rate_run entries qps (rm(i \<mapsto> ?st)) es) =
          (if s = window_sec st then min (offered i s es) (unat (qps i) - (unat (count st) + 1))
           else min (offered i s es) (unat (qps i)))"
        by (subst Cons.IH [OF _ Cons.prems(2,3) srt, of _ ?st])
          (use win(1) unat_count_inc [OF more(2)] in auto)
      then show ?thesis
        using more True e rate_limit_own [of rm i st, OF Cons.prems(1,2,3)] lt
        by (auto simp: not_le)
    qed
  qed
qed simp

section \<open>One hash, two planes\<close>

text \<open>
  The control plane hashes a configured domain, the data plane the name of a query; a
  route is found because the two are the same function of the normalised name.
\<close>

locale qname_hash =
  fixes hash_bytes :: "bytes \<Rightarrow> u64"
    and hash_domain :: "string \<Rightarrow> u64"
    and hash_meta :: "dns_query_meta \<Rightarrow> u64"
  assumes hash_domain: "hash_domain d =
      (let normalized = the_ret (zereh_normalize_domain d 256) in
       if normalized = [] then 0 else hash_bytes (bytes_of normalized))"
    and hash_meta: "meta_wf m \<Longrightarrow> hash_meta m = hash_bytes (qname_of m)"
begin

lemma planes_agree:
  assumes "meta_wf m" and "length d \<le> 255" and "qname_of m = bytes_of (map c_tolower (strip_dot d))"
  shows "hash_meta m = hash_domain d"
proof -
  have "zereh_normalize_domain d 256 = Ret (map c_tolower (strip_dot d))"
    using assms(2) by (intro normalize_domain_eq) simp
  moreover have "strip_dot d \<noteq> []"
    using assms(1,3) by (auto simp: meta_wf_def bytes_of_def)
  ultimately show ?thesis using assms by (simp add: hash_domain hash_meta Let_def)
qed

end

interpretation fnv_hash: qname_hash zereh_fnv1a64_bytes zereh_fnv1a64_domain "zereh_route_hash 0"
  by unfold_locales (auto simp: zereh_fnv1a64_domain_def zereh_route_hash_def meta_wf_def Let_def)

interpretation sip_hash: qname_hash zereh_siphash24_bytes zereh_siphash24_domain "zereh_route_hash 1"
  by unfold_locales
    (auto simp: zereh_siphash24_domain_def zereh_route_hash_def meta_wf_def meta_buf_ok_def
       qname_of_def siphash_qname_eq Let_def)

section \<open>The conjunction of the filters\<close>

lemma app_filters_iff:
  assumes "meta_buf_ok m" and "length p < 2 ^ 16" and "length s < 2 ^ 16"
  shows "fst (zereh_apply_app_filters entries bl clk rm m p (of_nat (length p)) s (of_nat (length s))
       mn mx qmn qmx h i rrm d pw br bsz bf bw qps) \<longleftrightarrow>
     mn \<le> m_label_depth m \<and> m_label_depth m \<le> mx \<and> qmn \<le> m_qname_len m \<and> m_qname_len m \<le> qmx \<and>
     zereh_type_allowed (m_qtype m) rrm \<and>
     length p \<le> 127 \<and> prefix p (qname_of m) \<and> length s \<le> 127 \<and> suffix s (qname_of m) \<and>
     fst (zereh_rate_limit_allow entries (t_rate clk) rm i qps) \<and>
     zereh_pow_allow (t_pow clk) h (m_dns_id m) d pw \<and>
     (br \<noteq> 0 \<longrightarrow> zereh_bloom_allow bl (t_bloom clk) h bsz bf bw)"
  using prefix_pattern.mtch_meta [OF assms(1,2)] suffix_pattern.mtch_meta [OF assms(1,3)]
  by (auto simp: zereh_apply_app_filters_def split_beta not_le)

lemma app_filters_rate:
  "snd (zereh_apply_app_filters entries bl clk rm m p pl s sl
       mn mx qmn qmx h i rrm d pw br bsz bf bw qps) = 
     (if mn \<le> m_label_depth m \<and> m_label_depth m \<le> mx \<and> qmn \<le> m_qname_len m \<and> m_qname_len m \<le> qmx \<and>
         zereh_type_allowed (m_qtype m) rrm \<and> zereh_match_prefix (m_qname m) (m_qname_len m) p pl \<and>
         zereh_match_suffix (m_qname m) (m_qname_len m) s sl
      then snd (zereh_rate_limit_allow entries (t_rate clk) rm i qps) else rm)"
  by (auto simp: zereh_apply_app_filters_def split_beta not_le)

lemma app_filters_charge:
  assumes "meta_buf_ok m" and "length p < 2 ^ 16" and "length s < 2 ^ 16"
  shows "snd (zereh_apply_app_filters entries bl clk rm m p (of_nat (length p)) s (of_nat (length s))
       mn mx qmn qmx h i rrm d pw br bsz bf bw qps) =
     (if mn \<le> m_label_depth m \<and> m_label_depth m \<le> mx \<and> qmn \<le> m_qname_len m \<and> m_qname_len m \<le> qmx \<and>
         zereh_type_allowed (m_qtype m) rrm \<and>
         length p \<le> 127 \<and> prefix p (qname_of m) \<and> length s \<le> 127 \<and> suffix s (qname_of m)
      then snd (zereh_rate_limit_allow entries (t_rate clk) rm i qps) else rm)"
  unfolding app_filters_rate
  using prefix_pattern.mtch_meta [OF assms(1,2)] suffix_pattern.mtch_meta [OF assms(1,3)] by simp

section \<open>Properties\<close>

text \<open>
  (C14) The data plane's SipHash, an in-place loop over the fixed name buffer with at most 31
  blocks, computes the control plane's SipHash-2-4 of the name, for every name the parser
  can return.
\<close>

theorem siphash_planes_agree:
  assumes "meta_buf_ok m"
  shows "zereh_siphash24_qname (m_qname m) (m_qname_len m) = zereh_siphash24_bytes (qname_of m)"
  using assms unfolding meta_buf_ok_def qname_of_def by (intro siphash_qname_eq) auto

theorem siphash_planes_agree_witness:
  "meta_buf_ok (query_meta 7 0 [[119], [97, 98]] 1 1) \<and>
   zereh_siphash24_qname (m_qname (query_meta 7 0 [[119], [97, 98]] 1 1))
     (m_qname_len (query_meta 7 0 [[119], [97, 98]] 1 1)) = zereh_siphash24_bytes [119, 46, 97, 98]"
proof -
  let ?m = "query_meta 7 0 [[119], [97, 98]] 1 1"
  have ok: "meta_buf_ok ?m" and q: "qname_of ?m = [119, 46, 97, 98]"
    by (simp_all add: query_meta_def meta_buf_ok_def qname_of_def zereh_ascii_tolower_def)
  show ?thesis using siphash_planes_agree [OF ok] ok by (simp add: q)
qed

text \<open>
  (C17) The prefix (suffix) test succeeds exactly when the pattern is a prefix (suffix) of the
  query name and has at most 127 bytes: the comparison loop ends after 128 iterations, so
  a pattern of 128 bytes, which the configuration accepts, matches nothing.
\<close>

theorem pattern_match_iff:
  assumes "meta_buf_ok m" and "length p < 2 ^ 16"
  shows "(zereh_match_prefix (m_qname m) (m_qname_len m) p (of_nat (length p)) \<longleftrightarrow>
            length p \<le> 127 \<and> prefix p (qname_of m)) \<and>
         (zereh_match_suffix (m_qname m) (m_qname_len m) p (of_nat (length p)) \<longleftrightarrow>
            length p \<le> 127 \<and> suffix p (qname_of m))"
  using prefix_pattern.mtch_meta [OF assms] suffix_pattern.mtch_meta [OF assms] by blast

theorem pattern_match_iff_witness:
  "zereh_match_suffix (m_qname (query_meta 7 0 [[119], [97, 98]] 1 1))
      (m_qname_len (query_meta 7 0 [[119], [97, 98]] 1 1)) [97, 98] (of_nat (length [97 :: u8, 98])) \<and>
   \<not> zereh_match_prefix (m_qname (query_meta 7 0 [[119], [97, 98]] 1 1))
      (m_qname_len (query_meta 7 0 [[119], [97, 98]] 1 1)) [97, 98] (of_nat (length [97 :: u8, 98]))"
proof -
  let ?m = "query_meta 7 0 [[119], [97, 98]] 1 1"
  have ok: "meta_buf_ok ?m" and q: "qname_of ?m = [119, 46, 97, 98]"
    by (simp_all add: query_meta_def meta_buf_ok_def qname_of_def zereh_ascii_tolower_def)
  have "suffix [97, 98] [119, 46, 97, 98 :: u8]" by (auto simp: suffix_def)
  then show ?thesis using pattern_match_iff [OF ok, of "[97, 98]"] by (simp add: q)
qed

text \<open>
  (C18) Proof of work: a bucket test of difficulty \<open>d\<close> succeeds exactly when the mixed value
  of name hash, query identifier and bucket is below \<open>2 ^ (64 - d)\<close>.
\<close>

theorem pow_threshold:
  assumes "unat d \<le> 64"
  shows "zereh_pow_bucket_ok h i d b \<longleftrightarrow>
    unat (zereh_mix64 (h XOR (ucast i * 0x9e3779b97f4a7c15) XOR (b * 0x517cc1b727220a95))) < 2 ^ (64 - unat d)"
  using assms by (rule pow_bucket_ok_iff)

theorem pow_threshold_witness:
  "zereh_pow_bucket_ok 0 0 63 0 \<longleftrightarrow>
    unat (zereh_mix64 (0 XOR (ucast (0 :: u16) * 0x9e3779b97f4a7c15) XOR (0 * 0x517cc1b727220a95))) < 2 ^ (64 - unat (63 :: u8))"
  by (rule pow_threshold) simp

text \<open>
  (C19) With a time window of \<open>w\<close> seconds, a proof of work or a Bloom membership is accepted at
  a time exactly when it is good for a bucket \<open>b\<close> such that the time lies in \<open>b\<close> or in the
  bucket after it: through the whole of the next bucket, and no later. In particular, what is
  good for the bucket of \<open>t\<close> is accepted for one whole window from \<open>t\<close> on.
\<close>

theorem token_valid_for_a_window:
  assumes "w \<noteq> 0"
  shows "(zereh_pow_allow t' h i d w \<longleftrightarrow> (\<exists>b. zereh_pow_bucket_ok h i d b \<and>
            unat b \<le> unat t' div 1000000000 div unat w \<and> unat t' div 1000000000 div unat w \<le> unat b + 1)) \<and>
    (zereh_bloom_allow bl t' h bits fns w \<longleftrightarrow> (\<exists>b. bloom_token_ok bl h bits fns b \<and>
            unat b \<le> unat t' div 1000000000 div unat w \<and> unat t' div 1000000000 div unat w \<le> unat b + 1)) \<and>
    (t \<le> t' \<and> unat t' div 1000000000 < unat t div 1000000000 + unat w \<longrightarrow>
       (zereh_pow_bucket_ok h i d (time_bucket t w) \<longrightarrow> zereh_pow_allow t' h i d w) \<and>
       (bloom_token_ok bl h bits fns (time_bucket t w) \<longrightarrow> zereh_bloom_allow bl t' h bits fns w))"
proof (intro conjI impI)
  assume "t \<le> t' \<and> unat t' div 1000000000 < unat t div 1000000000 + unat w"
  then show "zereh_pow_bucket_ok h i d (time_bucket t w) \<Longrightarrow> zereh_pow_allow t' h i d w"
    "bloom_token_ok bl h bits fns (time_bucket t w) \<Longrightarrow> zereh_bloom_allow bl t' h bits fns w"
    using pow_token.token_lifetime [OF assms] bloom_token.token_lifetime [OF assms] by blast+
qed (rule pow_token.allow_iff_bucket [OF assms] bloom_token.allow_iff_bucket [OF assms])+

theorem token_valid_for_a_window_witness:
  "zereh_pow_allow 69999999999 0 0 5 60 \<and> zereh_pow_bucket_ok 0 0 5 (time_bucket 59000000000 60) \<and>
   time_bucket 59000000000 60 \<noteq> time_bucket 69999999999 60"
proof -
  have b: "time_bucket 59000000000 60 = 0" "time_bucket 69999999999 60 = 1"
    by (simp_all add: time_bucket_def)
  have p: "zereh_pow_bucket_ok 0 0 5 0"
    by (simp add: pow_bucket_ok_iff zereh_mix64_def)
  have "zereh_pow_allow 69999999999 0 0 5 60"
    using token_valid_for_a_window [of 60 69999999999 0 0 5 "\<lambda>i. None" 64 1 59000000000, THEN conjunct2, THEN conjunct2] b p
    by simp
  then show ?thesis using b p by simp
qed

text \<open>
  (C15) The rate limiter is exact: in any interleaving of the packets of all routes with
  non-decreasing clock readings, the number of a route's packets accepted in a second is
  the smaller of its limit and the number offered (in the second in which the run starts,
  less what was already counted). The 32-bit counter never wraps.
\<close>

theorem rate_limit_exact:
  assumes "rm i = Some st" and "i < entries" and "0 < qps i"
    and "sorted (map snd es)" and "\<forall>(j, now) \<in> set es. window_sec st \<le> sec_of now"
  shows "accepted i s (rate_run entries qps rm es) =
    (if s = window_sec st then min (offered i s es) (unat (qps i) - unat (count st))
     else min (offered i s es) (unat (qps i)))"
  using assms by (rule rate_run_accepted)

theorem rate_limit_exact_witness:
  "accepted 0 1 (rate_run 2 (\<lambda>i. 2) ((\<lambda>i. None)(0 \<mapsto> \<lparr>window_sec = 0, count = 0, rate_pad = 0\<rparr>))
     [(0, 1000000000), (1, 1000000001), (0, 1500000000), (0, 1999999999), (0, 2000000000)]) = 2"
proof -
  let ?es = "[(0, 1000000000), (1, 1000000001), (0, 1500000000), (0, 1999999999), (0, 2000000000)] :: (u32 \<times> u64) list"
  have "offered 0 1 ?es = 3" by (simp add: offered_def)
  then show ?thesis
    using rate_limit_exact [of "(\<lambda>i. None)(0 \<mapsto> \<lparr>window_sec = 0, count = 0, rate_pad = 0\<rparr>)" 0
        "\<lparr>window_sec = 0, count = 0, rate_pad = 0\<rparr>" 2 "\<lambda>i. 2" ?es 1] by simp
qed

text \<open>
  (C16) A packet passes a route's filters exactly when it passes every one of them: label
  count, name length, record type, prefix, suffix, rate limit, proof of work and, if it is
  required, the Bloom filter. It is charged to the route's rate limit exactly when it passes
  those before the rate limit, whatever the later ones say; otherwise no counter changes.
\<close>

theorem app_filters_conjunction:
  assumes "meta_buf_ok m" and "length p < 2 ^ 16" and "length s < 2 ^ 16"
  shows "zereh_apply_app_filters entries bl clk rm m p (of_nat (length p)) s (of_nat (length s))
       mn mx qmn qmx h i rrm d pw br bsz bf bw qps =
     (let before = mn \<le> m_label_depth m \<and> m_label_depth m \<le> mx \<and> qmn \<le> m_qname_len m \<and> m_qname_len m \<le> qmx \<and>
        zereh_type_allowed (m_qtype m) rrm \<and>
        length p \<le> 127 \<and> prefix p (qname_of m) \<and> length s \<le> 127 \<and> suffix s (qname_of m);
        (in_limit, charged) = zereh_rate_limit_allow entries (t_rate clk) rm i qps
      in (before \<and> in_limit \<and> zereh_pow_allow (t_pow clk) h (m_dns_id m) d pw \<and>
            (br \<noteq> 0 \<longrightarrow> zereh_bloom_allow bl (t_bloom clk) h bsz bf bw),
          if before then charged else rm))"
  using app_filters_iff [OF assms, of entries bl clk rm mn mx qmn qmx h i rrm d pw br bsz bf bw qps]
    app_filters_charge [OF assms, of entries bl clk rm mn mx qmn qmx h i rrm d pw br bsz bf bw qps]
  by (intro prod_eqI) (simp_all add: Let_def split_beta)

theorem app_filters_conjunction_witness:
  "zereh_apply_app_filters 1 (\<lambda>i. None) \<lparr>t_rate = 0, t_pow = 0, t_bloom = 0\<rparr>
      ((\<lambda>i. None)(0 \<mapsto> \<lparr>window_sec = 0, count = 2, rate_pad = 0\<rparr>))
      (query_meta 7 0 [[119], [97, 98]] 1 1) [] (of_nat (length ([] :: bytes))) [97, 98] (of_nat (length [97 :: u8, 98]))
      1 127 1 255 0 0 15 0 0 1 0 0 0 5 =
    (False, (\<lambda>i. None)(0 \<mapsto> \<lparr>window_sec = 0, count = 3, rate_pad = 0\<rparr>))"
proof -
  let ?m = "query_meta 7 0 [[119], [97, 98]] 1 1"
  have ok: "meta_buf_ok ?m" and q: "qname_of ?m = [119, 46, 97, 98]"
    and f: "m_label_depth ?m = 2" "m_qname_len ?m = 4" "m_qtype ?m = 1"
    by (simp_all add: query_meta_def meta_buf_ok_def qname_of_def zereh_ascii_tolower_def)
  have "suffix [97, 98] [119, 46, 97, 98 :: u8]" by (auto simp: suffix_def)
  then show ?thesis
    using f by (subst app_filters_conjunction [OF ok])
      (simp_all add: q zereh_rate_limit_allow_def zereh_pow_allow_def zereh_type_allowed_def zereh_bloom_allow_def Let_def)
qed

end
