(* ===== verification/Zereh_Checksum.thy ===== *)
theory Zereh_Checksum
  imports Zereh_Prelude
begin

text \<open>
  The incremental checksum updates of \<open>xdp/xdp_template.c\<close>. A one's-complement checksum
  is right when the sum of all 16-bit words of the covered data, checksum included, is a
  multiple of 65535; the updates are correct when they keep that sum modulo 65535.
\<close>

section \<open>Definitions\<close>

definition zereh_csum_replace_u16 :: "u16 \<Rightarrow> u16 \<Rightarrow> u16 \<Rightarrow> u16" where
  "zereh_csum_replace_u16 check oldv newv = (
     let csum = NOT (ucast check :: u32) AND 0xffff;
         csum = csum + (NOT (ucast oldv) AND 0xffff);
         csum = csum + ucast newv;
         csum = (csum AND 0xffff) + drop_bit 16 csum;
         csum = (csum AND 0xffff) + drop_bit 16 csum
     in ucast (NOT csum))"

definition zereh_csum_replace_u32 :: "u16 \<Rightarrow> u32 \<Rightarrow> u32 \<Rightarrow> u16" where
  "zereh_csum_replace_u32 check oldv newv = (
     let check = zereh_csum_replace_u16 check (ucast (drop_bit 16 oldv)) (ucast (drop_bit 16 newv))
     in zereh_csum_replace_u16 check (ucast (oldv AND 0xffff)) (ucast (newv AND 0xffff)))"

section \<open>Lemmas\<close>

lemma mask16: "(0xffff :: 'a::len word) = mask 16"
  by (simp add: mask_eq_exp_minus_1)

lemma unat_and_mask16: "unat (x AND 0xffff :: u32) = unat x mod 65536"
  unfolding mask16 take_bit_eq_mask [symmetric] by (simp add: unat_mod take_bit_eq_mod)

lemma unat_drop16: "unat (drop_bit 16 (x :: u32)) = unat x div 65536"
  by (simp add: unat_div drop_bit_eq_div)

lemma not16: "NOT (ucast (c :: u16) :: u32) AND 0xffff = ucast (NOT c)"
  unfolding mask16 by (rule bit_word_eqI) (auto simp: bit_simps)

lemma unat_not16: "unat (NOT c :: u16) = 65535 - unat c"
proof -
  have "unat (- 1 - c) = unat (- 1 :: u16) - unat c"
    by (rule unat_sub) simp
  moreover have "NOT c = - 1 - c" by (simp add: not_eq_complement)
  ultimately show ?thesis by (simp add: unsigned_minus_1_eq_mask mask_eq_exp_minus_1)
qed

lemma unat_ucast_16_32 [simp]: "unat (ucast (c :: u16) :: u32) = unat c"
  using unsigned_less [of c, where ?'a = nat] by (simp add: unsigned_ucast_eq take_bit_nat_eq_self_iff)

lemma ucast_not_32_16: "ucast (NOT (x :: u32)) = NOT (ucast x :: u16)"
  by (rule bit_word_eqI) (auto simp: bit_simps)

lemma unat_ucast_32_16: "unat (ucast (x :: u32) :: u16) = unat x mod 65536"
  by (simp add: unsigned_ucast_eq take_bit_eq_mod)

definition fold16 :: "nat \<Rightarrow> nat" where "fold16 s = s mod 65536 + s div 65536"

lemma fold16_mod: "fold16 s mod 65535 = s mod 65535"
proof -
  have "s = fold16 s + (s div 65536) * 65535"
    unfolding fold16_def using div_mult_mod_eq [of s 65536] by linarith
  then show ?thesis by (metis mod_mult_self1)
qed

lemma u16_lt: "unat (x :: u16) \<le> 65535" 
  using unsigned_less [of x, where ?'a = nat] by simp

lemma fold16_le: "t < 131071 \<Longrightarrow> fold16 t \<le> 65535"
proof (cases "t < 65536")
  case False
  moreover assume "t < 131071"
  ultimately have "t div 65536 = 1" "t mod 65536 = t - 65536"
    by (auto simp: le_mod_geq le_div_geq)
  then show ?thesis using \<open>t < 131071\<close> by (simp add: fold16_def)
qed (simp add: fold16_def)

lemma fold16_fold16_le: "s \<le> 3 * 65535 \<Longrightarrow> fold16 (fold16 s) \<le> 65535"
proof -
  assume "s \<le> 3 * 65535"
  then have "s div 65536 \<le> 2" by linarith
  moreover have "s mod 65536 < 65536" by simp
  ultimately have "fold16 s < 131071" unfolding fold16_def by linarith
  then show ?thesis by (rule fold16_le)
qed

lemma unat_fold32:
  "unat x < 2 ^ 31 \<Longrightarrow> unat ((x AND 0xffff) + drop_bit 16 (x :: u32)) = fold16 (unat x)"
proof -
  assume "unat x < 2 ^ 31"
  then have "unat x mod 65536 + unat x div 65536 < 2 ^ 32"
    using mod_less_divisor [of 65536 "unat x"] by (simp add: less_mult_imp_div_less)
  then show ?thesis by (simp add: unat_word_ariths unat_and_mask16 unat_drop16 fold16_def)
qed

lemma csum_replace_u16_nat:
  "unat (zereh_csum_replace_u16 check oldv newv) =
    65535 - fold16 (fold16 ((65535 - unat check) + (65535 - unat oldv) + unat newv))"
proof -
  let ?a = "(65535 - unat check) + (65535 - unat oldv) + unat newv"
  let ?c0 = "(ucast (NOT check) + ucast (NOT oldv) + ucast newv :: u32)"
  let ?c1 = "(?c0 AND 0xffff) + drop_bit 16 ?c0"
  let ?c2 = "(?c1 AND 0xffff) + drop_bit 16 ?c1"
  have a: "?a \<le> 3 * 65535" using u16_lt [of newv] by linarith
  have c0: "unat ?c0 = ?a"
    using a by (simp add: unat_word_ariths unat_not16)
  have c1: "unat ?c1 = fold16 ?a"
    using a c0 by (subst unat_fold32) simp_all
  have "fold16 ?a < 2 ^ 31" using a unfolding fold16_def by simp
  then have c2: "unat ?c2 = fold16 (fold16 ?a)"
    using c1 by (subst unat_fold32) simp_all
  have "zereh_csum_replace_u16 check oldv newv = NOT (ucast ?c2)"
    unfolding zereh_csum_replace_u16_def Let_def not16 ucast_not_32_16 ..
  then show ?thesis
    using fold16_fold16_le [OF a] by (simp add: unat_not16 unat_ucast_32_16 c2)
qed

lemma ones_flip:
  fixes f c d n q1 q2 :: nat
  assumes "f + 65535 * q1 = (65535 - c) + (65535 - d) + n + 65535 * q2"
    and "f \<le> 65535" and "c \<le> 65535" and "d \<le> 65535"
  shows "(65535 - f + n) + 65535 * (q2 + 1) = c + d + 65535 * q1"
  using assms by auto

lemma csum_replace_u16_mod:
  "(unat (zereh_csum_replace_u16 check oldv newv) + unat newv) mod 65535 = (unat check + unat oldv) mod 65535"
proof -
  let ?a = "(65535 - unat check) + (65535 - unat oldv) + unat newv"
  let ?f = "fold16 (fold16 ?a)"
  have le: "?f \<le> 65535" using u16_lt [of newv] by (intro fold16_fold16_le) linarith
  have "?f mod 65535 = ?a mod 65535" by (simp add: fold16_mod)
  then obtain q1 q2 where q: "?f + 65535 * q1 = ?a + 65535 * q2"
    unfolding nat_mod_eq_iff by blast
  have "(65535 - ?f + unat newv) + 65535 * (q2 + 1) = unat check + unat oldv + 65535 * q1"
    using q le u16_lt [of check] u16_lt [of oldv] by (rule ones_flip)
  then show ?thesis
    unfolding csum_replace_u16_nat nat_mod_eq_iff by blast
qed
lemma u32_halves: "ucast (v AND 0xffff :: u32) = (ucast v :: u16)"
  unfolding mask16 by (rule bit_word_eqI) (auto simp: bit_simps)

lemma csum_replace_u32_mod:
  "(unat (zereh_csum_replace_u32 check oldv newv) + unat (ucast (drop_bit 16 newv) :: u16)
      + unat (ucast newv :: u16)) mod 65535
   = (unat check + unat (ucast (drop_bit 16 oldv) :: u16) + unat (ucast oldv :: u16)) mod 65535"
proof -
  let ?hi = "\<lambda>v :: u32. unat (ucast (drop_bit 16 v) :: u16)" and ?lo = "\<lambda>v :: u32. unat (ucast v :: u16)"
  let ?c1 = "zereh_csum_replace_u16 check (ucast (drop_bit 16 oldv)) (ucast (drop_bit 16 newv))"
  have eq: "zereh_csum_replace_u32 check oldv newv = zereh_csum_replace_u16 ?c1 (ucast oldv) (ucast newv)"
    by (simp add: zereh_csum_replace_u32_def Let_def u32_halves)
  have "(unat (zereh_csum_replace_u32 check oldv newv) + ?hi newv + ?lo newv) mod 65535
      = ((unat (zereh_csum_replace_u32 check oldv newv) + ?lo newv) mod 65535 + ?hi newv) mod 65535"
    by (simp add: mod_simps ac_simps)
  also have "\<dots> = ((unat ?c1 + ?hi newv) mod 65535 + ?lo oldv) mod 65535"
    unfolding eq csum_replace_u16_mod [of ?c1] by (simp add: mod_simps ac_simps)
  also have "\<dots> = (unat check + ?hi oldv + ?lo oldv) mod 65535"
    unfolding csum_replace_u16_mod by (simp add: mod_add_left_eq)
  finally show ?thesis .
qed

section \<open>Properties\<close>

text \<open>
  (C13) The incremental updates are exact: replacing a 16-bit word (a 32-bit address) in the
  covered data and the checksum by the updated one leaves the one's-complement sum
  unchanged, for every checksum and every old and new value; two foldings of the carry
  are enough.
\<close>

theorem csum_replace_exact:
  "(unat (zereh_csum_replace_u16 check old16 new16) + unat new16) mod 65535
     = (unat check + unat old16) mod 65535 \<and>
   (unat (zereh_csum_replace_u32 check old32 new32) + unat (ucast (drop_bit 16 new32) :: u16)
      + unat (ucast new32 :: u16)) mod 65535
     = (unat check + unat (ucast (drop_bit 16 old32) :: u16) + unat (ucast old32 :: u16)) mod 65535"
  using csum_replace_u16_mod csum_replace_u32_mod by blast

end
