(* ===== verification/Zereh_Router.thy ===== *)
theory Zereh_Router
  imports Zereh_Filters Zereh_Checksum
begin

text \<open>
  The XDP program \<open>xdp_router\<close> (\<open>xdp/xdp_template.c\<close>) with the route cases and fallback
  rules that \<open>control/codegen.c\<close> generates into it.

  The template's macros are the record \<open>xdp_consts\<close>, with \<open>consts_of_config\<close> the values
  the generator substitutes. What the kernel provides is the record \<open>bpf_env\<close>: the
  lookups of the maps \<open>ip_blacklist\<close> and \<open>pow_bloom\<close>, the result of
  \<open>bpf_redirect_map (&xsk_map, ...)\<close>, whether \<open>bpf_tail_call\<close> finds a program, and the
  clock. The per-CPU map \<open>route_rate_state\<close> and the packet are state: a run returns the
  verdict, the packet after the stores and the map after the stores, or \<open>Fault\<close>.

  A C \<open>switch\<close> over the route hashes is the first route with the hash; two routes with
  equal hashes would be duplicate \<open>case\<close> labels, which the compiler rejects.
\<close>

section \<open>Definitions\<close>

subsection \<open>Constants, environment and verdicts\<close>

abbreviation (input) "XDP_DROP \<equiv> (1 :: int)"
abbreviation (input) "XDP_PASS \<equiv> (2 :: int)"

record xdp_consts =
  k_max_packet_size :: u32
  k_allowed_opcode_mask :: u32
  k_drop_truncated :: u32
  k_default_action :: int
  k_hash_algo :: u32
  k_rate_state_entries :: u32

definition consts_of_config :: "zereh_config \<Rightarrow> xdp_consts" where
  "consts_of_config cfg = \<lparr>
     k_max_packet_size = c_max_packet_size cfg,
     k_allowed_opcode_mask = ucast (c_allowed_opcode_mask cfg),
     k_drop_truncated = (if c_drop_truncated cfg \<noteq> 0 then 1 else 0),
     k_default_action = (if c_default_action cfg = ZEREH_ACTION_DROP then XDP_DROP else XDP_PASS),
     k_hash_algo = (if c_hash_algo cfg = ZEREH_HASH_SIPHASH then 1 else 0),
     k_rate_state_entries = (if c_routes cfg \<noteq> [] then of_nat (length (c_routes cfg)) else 1)\<rparr>"

record lpm_v4_key =
  k_prefixlen :: u32
  k_addr :: u32

record bpf_env =
  env_ip_blacklist :: "lpm_v4_key \<rightharpoonup> u8"
  env_pow_bloom :: "u32 \<rightharpoonup> u64"
  env_redirect_map :: "u32 \<Rightarrow> u64 \<Rightarrow> int"
  env_tail_call :: "u32 \<Rightarrow> bool"
  env_clock :: clock_reads

text \<open>A successful tail call does not return: the called program decides.\<close>

datatype xdp_result = Returned int | Tail_called u32

type_synonym xdp_run = "(xdp_result \<times> bytes \<times> rate_map) cres"

subsection \<open>Global filters\<close>

text \<open>\<open>return -1\<close> is \<open>Err\<close>.\<close>

definition zereh_global_pre_route ::
  "xdp_consts \<Rightarrow> bpf_env \<Rightarrow> bytes \<Rightarrow> nat \<Rightarrow> dns_query_meta \<Rightarrow> u32 \<Rightarrow> unit cres" where
  "zereh_global_pre_route cs env pkt iph qmeta packet_len =
     cres_bind (ld32 pkt (iph + IP_saddr)) (\<lambda>saddr.
     let key = \<lparr>k_prefixlen = 32, k_addr = saddr\<rparr> in
     if packet_len > k_max_packet_size cs then Err else
     if env_ip_blacklist env key \<noteq> None then Err else
     if m_opcode qmeta > 15 then Err else
     if k_allowed_opcode_mask cs AND push_bit (unat (m_opcode qmeta)) 1 = 0 then Err else
     if k_drop_truncated cs \<noteq> 0 \<and> m_is_truncated qmeta \<noteq> 0 then Err else
     Ret ())"

subsection \<open>Delivery to a local port\<close>

text \<open>The two \<open>if\<close> statements of \<open>zereh_route_kernel_space\<close>, on the packet.\<close>

definition rewrite_daddr :: "bytes \<Rightarrow> nat \<Rightarrow> nat \<Rightarrow> u32 \<Rightarrow> bytes cres" where
  "rewrite_daddr pkt iph udp new_daddr =
     cres_bind (ld32 pkt (iph + IP_daddr)) (\<lambda>daddr.
     if new_daddr \<noteq> 0 \<and> daddr \<noteq> new_daddr then
       cres_bind (ld16 pkt (iph + IP_check)) (\<lambda>icheck.
       cres_bind (st16 pkt (iph + IP_check) (zereh_csum_replace_u32 icheck daddr new_daddr)) (\<lambda>pkt1.
       cres_bind (ld16 pkt1 (udp + UDP_check)) (\<lambda>ucheck.
       cres_bind (if ucheck \<noteq> 0
                  then st16 pkt1 (udp + UDP_check) (zereh_csum_replace_u32 ucheck daddr new_daddr)
                  else Ret pkt1) (\<lambda>pkt2.
       st32 pkt2 (iph + IP_daddr) new_daddr))))
     else Ret pkt)"

definition rewrite_dport :: "bytes \<Rightarrow> nat \<Rightarrow> u16 \<Rightarrow> bytes cres" where
  "rewrite_dport pkt udp new_dport =
     cres_bind (ld16 pkt (udp + UDP_dest)) (\<lambda>dport.
     if dport \<noteq> new_dport then
       cres_bind (ld16 pkt (udp + UDP_check)) (\<lambda>ucheck.
       cres_bind (if ucheck \<noteq> 0
                  then st16 pkt (udp + UDP_check) (zereh_csum_replace_u16 ucheck dport new_dport)
                  else Ret pkt) (\<lambda>pkt1.
       st16 pkt1 (udp + UDP_dest) new_dport))
     else Ret pkt)"

definition zereh_route_kernel_space :: "bytes \<Rightarrow> nat \<Rightarrow> nat \<Rightarrow> u16 \<Rightarrow> u32 \<Rightarrow> (int \<times> bytes) cres" where
  "zereh_route_kernel_space pkt iph udp new_dport new_daddr =
     cres_bind (rewrite_daddr pkt iph udp new_daddr) (\<lambda>pkt1.
     cres_bind (rewrite_dport pkt1 udp new_dport) (\<lambda>pkt2.
     Ret (XDP_PASS, pkt2)))"

subsection \<open>The generated code\<close>

text \<open>The statements a route's target generates.\<close>

definition route_action :: "bpf_env \<Rightarrow> bytes \<Rightarrow> nat \<Rightarrow> nat \<Rightarrow> zereh_route \<Rightarrow> (xdp_result \<times> bytes) cres" where
  "route_action env pkt iph udp route = (case r_target route of
     ZEREH_TARGET_USER_SPACE \<Rightarrow> Ret (Returned (env_redirect_map env (r_xsk_queue route) 0), pkt)
   | ZEREH_TARGET_KERNEL_SPACE \<Rightarrow>
       cres_bind (zereh_route_kernel_space pkt iph udp (bpf_htons (r_kernel_port route)) 0)
         (\<lambda>(v, pkt'). Ret (Returned v, pkt'))
   | ZEREH_TARGET_XDP_PROG \<Rightarrow>
       if env_tail_call env (r_prog_index route) then Ret (Tail_called (r_prog_index route), pkt)
       else Ret (Returned XDP_DROP, pkt))"

text \<open>The body that a \<open>case\<close> and a fallback rule share: the filters, then the action.\<close>

definition route_filters ::
  "xdp_consts \<Rightarrow> bpf_env \<Rightarrow> rate_map \<Rightarrow> dns_query_meta \<Rightarrow> u64 \<Rightarrow> u32 \<Rightarrow> zereh_route \<Rightarrow> bool \<times> rate_map" where
  "route_filters cs env rm qmeta route_hash route_id route =
     zereh_apply_app_filters (k_rate_state_entries cs) (env_pow_bloom env) (env_clock env) rm qmeta
       (bytes_of (r_prefix route)) (of_nat (length (r_prefix route)))
       (bytes_of (r_suffix route)) (of_nat (length (r_suffix route)))
       (r_min_labels route) (r_max_labels route) (r_qname_min_len route) (r_qname_max_len route)
       route_hash route_id (r_rrtype_mask route)
       (r_pow_difficulty route) (r_pow_time_window route)
       (r_bloom_enabled route) (r_bloom_size route) (r_bloom_hash_functions route)
       (r_bloom_time_window route) (r_rate_limit_qps route)"

definition route_body ::
  "xdp_consts \<Rightarrow> bpf_env \<Rightarrow> bytes \<Rightarrow> nat \<Rightarrow> nat \<Rightarrow> rate_map \<Rightarrow> dns_query_meta \<Rightarrow> u64 \<Rightarrow> u32 \<Rightarrow> zereh_route \<Rightarrow> xdp_run" where
  "route_body cs env pkt iph udp rm qmeta route_hash route_id route =
     (case route_filters cs env rm qmeta route_hash route_id route of (ok, rm') \<Rightarrow>
      if \<not> ok then Ret (Returned XDP_DROP, pkt, rm')
      else cres_bind (route_action env pkt iph udp route) (\<lambda>(v, pkt'). Ret (v, pkt', rm')))"

text \<open>\<open>case 0x...ULL:\<close> for each route, in order\<close>

fun route_cases :: "u64 \<Rightarrow> u32 \<Rightarrow> zereh_route list \<Rightarrow> (u32 \<times> zereh_route) option" where
  "route_cases route_hash i [] = None"
| "route_cases route_hash i (r # rs) =
     (if route_hash = r_hash r then Some (i, r) else route_cases route_hash (i + 1) rs)"

text \<open>\<open>if (zereh_match_suffix (qmeta->qname, qmeta->qname_len, "domain", n)) { ... }\<close> for each\<close>

fun fallback_rules :: "dns_query_meta \<Rightarrow> u32 \<Rightarrow> zereh_route list \<Rightarrow> (u32 \<times> zereh_route) option" where
  "fallback_rules qmeta i [] = None"
| "fallback_rules qmeta i (r # rs) =
     (if zereh_match_suffix (m_qname qmeta) (m_qname_len qmeta)
           (bytes_of (r_domain r)) (of_nat (length (r_domain r)))
      then Some (i, r) else fallback_rules qmeta (i + 1) rs)"

definition zereh_dispatch ::
  "xdp_consts \<Rightarrow> zereh_route list \<Rightarrow> bpf_env \<Rightarrow> bytes \<Rightarrow> nat \<Rightarrow> nat \<Rightarrow> rate_map \<Rightarrow> dns_query_meta \<Rightarrow> xdp_run" where
  "zereh_dispatch cs routes env pkt iph udp rm qmeta = (
     let route_hash = zereh_route_hash (k_hash_algo cs) qmeta in
     case route_cases route_hash 0 routes of
       Some (i, r) \<Rightarrow> route_body cs env pkt iph udp rm qmeta route_hash i r
     | None \<Rightarrow>
         (case fallback_rules qmeta 0 routes of
            Some (i, r) \<Rightarrow> route_body cs env pkt iph udp rm qmeta route_hash i r
          | None \<Rightarrow> Ret (Returned (k_default_action cs), pkt, rm)))"

subsection \<open>The programs\<close>

text \<open>\<open>if (f (...) != 0) return v;\<close>\<close>

definition or_return :: "'a cres \<Rightarrow> 'b \<Rightarrow> ('a \<Rightarrow> 'b cres) \<Rightarrow> 'b cres" where
  "or_return m v f = (case m of Fault \<Rightarrow> Fault | Err \<Rightarrow> Ret v | Ret x \<Rightarrow> f x)"

definition xdp_router :: "xdp_consts \<Rightarrow> zereh_route list \<Rightarrow> bpf_env \<Rightarrow> rate_map \<Rightarrow> bytes \<Rightarrow> xdp_run" where
  "xdp_router cs routes env rm pkt =
     or_return (zereh_parse_eth_ipv4_udp pkt) (Returned XDP_PASS, pkt, rm) (\<lambda>(eth, iph, udp).
     cres_bind (ld16 pkt (udp + UDP_dest)) (\<lambda>dest.
     if dest \<noteq> bpf_htons 53 then Ret (Returned XDP_PASS, pkt, rm) else
     or_return (zereh_parse_dns_query pkt udp) (Returned XDP_PASS, pkt, rm) (\<lambda>qmeta.
     let packet_len = of_nat (length pkt) in
     or_return (zereh_global_pre_route cs env pkt iph qmeta packet_len) (Returned XDP_DROP, pkt, rm) (\<lambda>_.
     zereh_dispatch cs routes env pkt iph udp rm qmeta))))"

definition zereh_app_default :: "bytes \<Rightarrow> xdp_result \<times> bytes" where
  "zereh_app_default pkt = (Returned XDP_PASS, pkt)"

section \<open>Delivery to a local port\<close>

lemma rewrite_dport_spec:
  assumes "udp + 8 \<le> length pkt" and "ld16 pkt (udp + 2) = Ret d" and "ld16 pkt (udp + 6) = Ret c"
  obtains pkt' c' where "rewrite_dport pkt udp p = Ret pkt'" "length pkt' = length pkt"
    "ld16 pkt' (udp + 2) = Ret p" "ld16 pkt' (udp + 6) = Ret c'"
    "\<And>k. k \<notin> {udp + 2, udp + 3, udp + 6, udp + 7} \<Longrightarrow> pkt' ! k = pkt ! k"
    "c = 0 \<Longrightarrow> c' = 0" "c \<noteq> 0 \<Longrightarrow> (unat c' + unat p) mod 65535 = (unat c + unat d) mod 65535"
proof (cases "d = p")
  case True
  then show thesis using that [of pkt c] assms by (simp add: rewrite_dport_def)
next
  case False
  let ?c = "if c \<noteq> 0 then zereh_csum_replace_u16 c d p else 0"
  obtain p1 where p1: "(if c \<noteq> 0 then st16 pkt (udp + 6) (zereh_csum_replace_u16 c d p) else Ret pkt) = Ret p1"
      "length p1 = length pkt" "ld16 p1 (udp + 6) = Ret ?c"
      "\<And>k. k \<noteq> udp + 6 \<Longrightarrow> k \<noteq> udp + 7 \<Longrightarrow> p1 ! k = pkt ! k"
  proof (cases "c = 0")
    case False
    obtain p1 where "st16 pkt (udp + 6) (zereh_csum_replace_u16 c d p) = Ret p1"
      using st16_Ret [of "udp + 6" pkt] assms(1) by auto
    then show thesis
      using that [of p1] False st16_length [of pkt] ld16_st16 [of pkt] st16_nth [of pkt "udp + 6"] by auto
  qed (use that [of pkt] assms in auto)
  obtain p2 where p2: "st16 p1 (udp + 2) p = Ret p2" using st16_Ret [of "udp + 2" p1] p1(2) assms(1) by auto
  have "rewrite_dport pkt udp p = Ret p2"
    using False p1(1) p2 assms by (auto simp: rewrite_dport_def split: if_splits)
  moreover have "ld16 p2 (udp + 6) = Ret ?c" using ld16_st16_other [OF p2, of "udp + 6"] p1(3) by simp
  ultimately show thesis
    using that [of p2 ?c] st16_length [OF p2] p1(2,4) ld16_st16 [OF p2] st16_nth [OF p2] csum_replace_u16_mod [of c d p]
    by auto
qed

lemma rewrite_dport_ex:
  assumes "udp + 8 \<le> length pkt"
  obtains pkt' where "rewrite_dport pkt udp p = Ret pkt'" "length pkt' = length pkt"
    "ld16 pkt' (udp + 2) = Ret p"
    "\<And>k. k \<notin> {udp + 2, udp + 3, udp + 6, udp + 7} \<Longrightarrow> pkt' ! k = pkt ! k"
proof -
  obtain d c where "ld16 pkt (udp + 2) = Ret d" "ld16 pkt (udp + 6) = Ret c"
    using ld16_ex [of "udp + 2" pkt] ld16_ex [of "udp + 6" pkt] assms by auto
  then show thesis using rewrite_dport_spec [OF assms, of d c p] that by metis
qed

lemma rewrite_daddr_0: "iph + 20 \<le> length pkt \<Longrightarrow> rewrite_daddr pkt iph udp 0 = Ret pkt"
  using ld32_ex [of "iph + 16" pkt] by (auto simp: rewrite_daddr_def)

abbreviation (input) "sum32 v \<equiv> unat (ucast (drop_bit 16 v) :: u16) + unat (ucast (v :: u32) :: u16)"

lemma rewrite_daddr_spec:
  assumes "iph + 20 \<le> udp" and "udp + 8 \<le> length pkt" and "new \<noteq> 0"
    and "ld32 pkt (iph + 16) = Ret d" and "ld16 pkt (iph + 10) = Ret ic" and "ld16 pkt (udp + 6) = Ret uc"
  obtains pkt' ic' uc' where "rewrite_daddr pkt iph udp new = Ret pkt'" "length pkt' = length pkt"
    "ld32 pkt' (iph + 16) = Ret new" "ld16 pkt' (iph + 10) = Ret ic'" "ld16 pkt' (udp + 6) = Ret uc'"
    "\<And>k. k \<notin> {iph + 10, iph + 11, udp + 6, udp + 7} \<Longrightarrow> k < iph + 16 \<or> iph + 19 < k \<Longrightarrow> pkt' ! k = pkt ! k"
    "(unat ic' + sum32 new) mod 65535 = (unat ic + sum32 d) mod 65535"
    "uc = 0 \<Longrightarrow> uc' = 0" "uc \<noteq> 0 \<Longrightarrow> (unat uc' + sum32 new) mod 65535 = (unat uc + sum32 d) mod 65535"
proof (cases "d = new")
  case True
  then show thesis using that [of pkt ic uc] assms by (simp add: rewrite_daddr_def)
next
  case False
  let ?ic = "zereh_csum_replace_u32 ic d new"
  let ?uc = "if uc \<noteq> 0 then zereh_csum_replace_u32 uc d new else 0"
  obtain p1 where p1: "st16 pkt (iph + 10) ?ic = Ret p1" using st16_Ret [of "iph + 10" pkt] assms by auto
  note l1 = st16_length [OF p1]
  have uc1: "ld16 p1 (udp + 6) = Ret uc" using ld16_st16_other [OF p1, of "udp + 6"] assms by simp
  obtain p2 where p2: "(if uc \<noteq> 0 then st16 p1 (udp + 6) (zereh_csum_replace_u32 uc d new) else Ret p1) = Ret p2"
      "length p2 = length pkt" "ld16 p2 (udp + 6) = Ret ?uc"
      "\<And>k. k \<noteq> udp + 6 \<Longrightarrow> k \<noteq> udp + 7 \<Longrightarrow> p2 ! k = p1 ! k"
  proof (cases "uc = 0")
    case False
    obtain p2 where "st16 p1 (udp + 6) (zereh_csum_replace_u32 uc d new) = Ret p2"
      using st16_Ret [of "udp + 6" p1] l1 assms by auto
    then show thesis
      using that [of p2] False l1 st16_length [of p1] ld16_st16 [of p1] st16_nth [of p1 "udp + 6"] by auto
  qed (use that [of p1] uc1 l1 in auto)
  obtain p3 where p3: "st32 p2 (iph + 16) new = Ret p3" "length p3 = length p2" "ld32 p3 (iph + 16) = Ret new"
     "\<And>k. k < iph + 16 \<or> iph + 16 + 3 < k \<Longrightarrow> p3 ! k = p2 ! k"
    using st32_spec [of "iph + 16" p2] p2(2) assms(1,2) by auto
  have "rewrite_daddr pkt iph udp new = Ret p3"
    using False p1 p2(1) p3(1) uc1 assms by (auto simp: rewrite_daddr_def split: if_splits)
  moreover have "ld16 p3 (udp + 6) = Ret ?uc"
    using ld16_cong [of p3 p2 "udp + 6"] p3(2,4) p2(3) assms(1) by simp
  moreover have "ld16 p3 (iph + 10) = Ret ?ic"
    using ld16_cong [of p3 p1 "iph + 10"] p3(2,4) p2(2,4) l1 ld16_st16 [OF p1] assms(1) by simp
  moreover have "p3 ! k = pkt ! k" if "k \<notin> {iph + 10, iph + 11, udp + 6, udp + 7}" "k < iph + 16 \<or> iph + 19 < k" for k
    using that p3(4) [of k] p2(4) [of k] st16_nth [OF p1, of k] by auto
  ultimately show thesis
    using that [of p3 ?ic ?uc] p3(2,3) p2(2) csum_replace_u32_mod [of ic d new] csum_replace_u32_mod [of uc d new]
    by (auto simp: add.assoc)
qed


text \<open>The fields that the rewriting must keep consistent, as native 16-bit words.\<close>

lemma mod_chain:
  fixes n :: nat
  assumes "(c2 + p) mod n = (c1 + d) mod n" and "(c1 + a) mod n = (c + b) mod n"
  shows "(c2 + a + p) mod n = (c + b + d) mod n"
  using mod_add_cong [OF assms(1) refl [of "a mod n"]] mod_add_cong [OF assms(2) refl [of "d mod n"]]
  by (simp add: ac_simps)

lemma rewrite_daddr_any:
  assumes "iph + 20 \<le> udp" and "udp + 8 \<le> length pkt"
    and "ld32 pkt (iph + 16) = Ret d" and "ld16 pkt (iph + 10) = Ret ic" and "ld16 pkt (udp + 6) = Ret uc"
  obtains p1 ic1 uc1 where "rewrite_daddr pkt iph udp a = Ret p1" "length p1 = length pkt"
     "ld32 p1 (iph + 16) = Ret (if a = 0 then d else a)" "ld16 p1 (iph + 10) = Ret ic1" "ld16 p1 (udp + 6) = Ret uc1"
     "(unat ic1 + sum32 (if a = 0 then d else a)) mod 65535 = (unat ic + sum32 d) mod 65535"
     "uc = 0 \<Longrightarrow> uc1 = 0"
     "uc \<noteq> 0 \<Longrightarrow> (unat uc1 + sum32 (if a = 0 then d else a)) mod 65535 = (unat uc + sum32 d) mod 65535"
     "\<And>k. k \<notin> {udp + 6, udp + 7} \<Longrightarrow>
        a = 0 \<or> k \<notin> {iph + 10, iph + 11, iph + 16, iph + 17, iph + 18, iph + 19} \<Longrightarrow> p1 ! k = pkt ! k"
proof (cases "a = 0")
  case True
  then show thesis using that [of pkt ic uc] rewrite_daddr_0 [of iph pkt udp] assms by simp
next
  case False
  obtain q ic1 uc1 where q: "rewrite_daddr pkt iph udp a = Ret q" "length q = length pkt"
    "ld32 q (iph + 16) = Ret a" "ld16 q (iph + 10) = Ret ic1" "ld16 q (udp + 6) = Ret uc1"
    "\<And>k. k \<notin> {iph + 10, iph + 11, udp + 6, udp + 7} \<Longrightarrow> k < iph + 16 \<or> iph + 19 < k \<Longrightarrow> q ! k = pkt ! k"
    "(unat ic1 + sum32 a) mod 65535 = (unat ic + sum32 d) mod 65535"
    "uc = 0 \<Longrightarrow> uc1 = 0" "uc \<noteq> 0 \<Longrightarrow> (unat uc1 + sum32 a) mod 65535 = (unat uc + sum32 d) mod 65535"
    using rewrite_daddr_spec [OF assms(1,2) False assms(3,4,5)] by metis
  have "q ! k = pkt ! k" if "k \<notin> {udp + 6, udp + 7}"
     "k \<notin> {iph + 10, iph + 11, iph + 16, iph + 17, iph + 18, iph + 19}" for k
    using that by (intro q(6)) auto
  then show thesis using that [of q ic1 uc1] q False by simp
qed

lemma kernel_space_spec:
  assumes "iph + 20 \<le> udp" and "udp + 8 \<le> length pkt"
    and "ld32 pkt (iph + 16) = Ret d" and "ld16 pkt (iph + 10) = Ret ic"
    and "ld16 pkt (udp + 2) = Ret dp" and "ld16 pkt (udp + 6) = Ret uc"
  obtains pkt' ic' uc' where "zereh_route_kernel_space pkt iph udp p a = Ret (XDP_PASS, pkt')"
    "length pkt' = length pkt" "ld16 pkt' (udp + 2) = Ret p"
    "ld32 pkt' (iph + 16) = Ret (if a = 0 then d else a)"
    "ld16 pkt' (iph + 10) = Ret ic'" "ld16 pkt' (udp + 6) = Ret uc'"
    "(unat ic' + sum32 (if a = 0 then d else a)) mod 65535 = (unat ic + sum32 d) mod 65535"
    "uc = 0 \<Longrightarrow> uc' = 0"
    "uc' \<noteq> 0 \<Longrightarrow> (unat uc' + sum32 (if a = 0 then d else a) + unat p) mod 65535
        = (unat uc + sum32 d + unat dp) mod 65535"
    "\<And>k. k \<notin> {udp + 2, udp + 3, udp + 6, udp + 7} \<Longrightarrow>
       a = 0 \<or> k \<notin> {iph + 10, iph + 11, iph + 16, iph + 17, iph + 18, iph + 19} \<Longrightarrow> pkt' ! k = pkt ! k"
proof -
  let ?a = "if a = 0 then d else a"
  obtain p1 ic1 uc1 where p1: "rewrite_daddr pkt iph udp a = Ret p1" "length p1 = length pkt"
     "ld32 p1 (iph + 16) = Ret ?a" "ld16 p1 (iph + 10) = Ret ic1" "ld16 p1 (udp + 6) = Ret uc1"
     "(unat ic1 + sum32 ?a) mod 65535 = (unat ic + sum32 d) mod 65535"
     "uc = 0 \<Longrightarrow> uc1 = 0" "uc \<noteq> 0 \<Longrightarrow> (unat uc1 + sum32 ?a) mod 65535 = (unat uc + sum32 d) mod 65535"
     "\<And>k. k \<notin> {udp + 6, udp + 7} \<Longrightarrow>
        a = 0 \<or> k \<notin> {iph + 10, iph + 11, iph + 16, iph + 17, iph + 18, iph + 19} \<Longrightarrow> p1 ! k = pkt ! k"
    using rewrite_daddr_any [OF assms(1-4,6), of a] by metis
  have dp1: "ld16 p1 (udp + 2) = Ret dp"
    using ld16_cong [of p1 pkt "udp + 2"] p1(2) p1(9) [of "udp + 2"] p1(9) [of "udp + 3"] assms(1,5) by (simp add: eval_nat_numeral)
  obtain p2 uc2 where p2: "rewrite_dport p1 udp p = Ret p2" "length p2 = length p1"
    "ld16 p2 (udp + 2) = Ret p" "ld16 p2 (udp + 6) = Ret uc2"
    "\<And>k. k \<notin> {udp + 2, udp + 3, udp + 6, udp + 7} \<Longrightarrow> p2 ! k = p1 ! k"
    "uc1 = 0 \<Longrightarrow> uc2 = 0" "uc1 \<noteq> 0 \<Longrightarrow> (unat uc2 + unat p) mod 65535 = (unat uc1 + unat dp) mod 65535"
    using rewrite_dport_spec [of udp p1 dp uc1 p] p1(2,5) dp1 assms(2) by metis
  have "(unat uc2 + sum32 ?a + unat p) mod 65535 = (unat uc + sum32 d + unat dp) mod 65535" if nz: "uc2 \<noteq> 0"
  proof -
    have "uc1 \<noteq> 0" "uc \<noteq> 0" using nz p2(6) p1(7) by auto
    then show ?thesis using mod_chain [OF p2(7) p1(8)] by simp
  qed
  moreover have "ld32 p2 (iph + 16) = Ret ?a"
    using p1(3) ld32_cong [of p2 p1 "iph + 16"] p2(2,5) assms(1) by simp
  moreover have "ld16 p2 (iph + 10) = Ret ic1"
    using p1(4) ld16_cong [of p2 p1 "iph + 10"] p2(2,5) assms(1) by simp
  ultimately show thesis
    using that [of p2 ic1 uc2] p1 p2 by (simp add: zereh_route_kernel_space_def)
qed

text \<open>The packets a run may produce: the UDP port and checksum bytes may differ.\<close>

definition port_rewritten :: "nat \<Rightarrow> bytes \<Rightarrow> bytes \<Rightarrow> bool" where
  "port_rewritten udp pkt pkt' \<longleftrightarrow> length pkt' = length pkt \<and>
     (\<forall>k. k \<notin> {udp + 2, udp + 3, udp + 6, udp + 7} \<longrightarrow> pkt' ! k = pkt ! k)"

lemma port_rewritten_refl [simp]: "port_rewritten udp pkt pkt"
  by (simp add: port_rewritten_def)

lemma kernel_space_port:
  assumes "iph + 20 \<le> length pkt" and "udp + 8 \<le> length pkt"
  obtains pkt' where "zereh_route_kernel_space pkt iph udp p 0 = Ret (XDP_PASS, pkt')"
    "port_rewritten udp pkt pkt'" "ld16 pkt' (udp + 2) = Ret p"
proof -
  obtain pkt' where "rewrite_dport pkt udp p = Ret pkt'" "length pkt' = length pkt" "ld16 pkt' (udp + 2) = Ret p"
    "\<And>k. k \<notin> {udp + 2, udp + 3, udp + 6, udp + 7} \<Longrightarrow> pkt' ! k = pkt ! k"
    using rewrite_dport_ex [OF assms(2), of p] by metis
  then show thesis
    using that [of pkt'] rewrite_daddr_0 [OF assms(1)] by (simp add: zereh_route_kernel_space_def port_rewritten_def)
qed

lemma route_action_total:
  assumes "iph + 20 \<le> length pkt" and "udp + 8 \<le> length pkt"
  obtains v pkt' where "route_action env pkt iph udp r = Ret (v, pkt')" "port_rewritten udp pkt pkt'"
    "r_target r \<noteq> ZEREH_TARGET_KERNEL_SPACE \<Longrightarrow> pkt' = pkt"
proof (cases "r_target r")
  case ZEREH_TARGET_KERNEL_SPACE
  obtain pkt' where "zereh_route_kernel_space pkt iph udp (bpf_htons (r_kernel_port r)) 0 = Ret (XDP_PASS, pkt')"
    "port_rewritten udp pkt pkt'"
    using kernel_space_port [OF assms] by metis
  then show thesis using that [of _ pkt'] ZEREH_TARGET_KERNEL_SPACE by (simp add: route_action_def)
next
  case ZEREH_TARGET_XDP_PROG
  then show thesis
    using that [of _ pkt] by (cases "env_tail_call env (r_prog_index r)") (auto simp: route_action_def)
qed (use that [of _ pkt] in \<open>auto simp: route_action_def\<close>)

lemma route_body_total:
  assumes "iph + 20 \<le> length pkt" and "udp + 8 \<le> length pkt"
  obtains v pkt' where "route_body cs env pkt iph udp rm m h i r =
      Ret (v, pkt', snd (route_filters cs env rm m h i r))" "port_rewritten udp pkt pkt'"
    "\<not> fst (route_filters cs env rm m h i r) \<Longrightarrow> v = Returned XDP_DROP \<and> pkt' = pkt"
proof (cases "fst (route_filters cs env rm m h i r)")
  case True
  obtain v pkt' where "route_action env pkt iph udp r = Ret (v, pkt')" "port_rewritten udp pkt pkt'"
    using route_action_total [OF assms] by metis
  then show thesis using that [of v pkt'] True by (simp add: route_body_def split_beta)
qed (use that [of _ pkt] in \<open>simp add: route_body_def split_beta\<close>)

section \<open>Selecting the route\<close>

definition select_route :: "u64 \<Rightarrow> dns_query_meta \<Rightarrow> zereh_route list \<Rightarrow> (u32 \<times> zereh_route) option" where
  "select_route h m routes = (case route_cases h 0 routes of Some x \<Rightarrow> Some x | None \<Rightarrow> fallback_rules m 0 routes)"

lemma dispatch_eq:
  "zereh_dispatch cs routes env pkt iph udp rm m =
     (let h = zereh_route_hash (k_hash_algo cs) m in
      case select_route h m routes of
        Some (i, r) \<Rightarrow> route_body cs env pkt iph udp rm m h i r
      | None \<Rightarrow> Ret (Returned (k_default_action cs), pkt, rm))"
  by (simp add: zereh_dispatch_def select_route_def Let_def split: option.split)

text \<open>Both the cases and the rules are tried in order: the first rule that applies, with its number.\<close>

fun first_rule :: "('r \<Rightarrow> bool) \<Rightarrow> u32 \<Rightarrow> 'r list \<Rightarrow> (u32 \<times> 'r) option" where
  "first_rule P i [] = None"
| "first_rule P i (r # rs) = (if P r then Some (i, r) else first_rule P (i + 1) rs)"

lemma first_rule_Some:
  "first_rule P i rs = Some (j, r) \<longleftrightarrow>
     (\<exists>n < length rs. j = i + of_nat n \<and> r = rs ! n \<and> P r \<and> (\<forall>k < n. \<not> P (rs ! k)))"
proof (induction rs arbitrary: i)
  case (Cons a rs)
  have "(\<exists>n < length (a # rs). j = i + of_nat n \<and> r = (a # rs) ! n \<and> P r \<and> (\<forall>k < n. \<not> P ((a # rs) ! k))) \<longleftrightarrow>
      j = i \<and> r = a \<and> P a \<or>
      \<not> P a \<and> (\<exists>n < length rs. j = i + 1 + of_nat n \<and> r = rs ! n \<and> P r \<and> (\<forall>k < n. \<not> P (rs ! k)))"
    unfolding length_Cons Ex_less_Suc2 All_less_Suc2 by (auto simp: ac_simps)
  then show ?case using Cons.IH [of "i + 1"] by auto
qed simp

lemma first_rule_nth:
  "n < length rs \<Longrightarrow> P (rs ! n) \<Longrightarrow> \<forall>k < n. \<not> P (rs ! k) \<Longrightarrow> first_rule P 0 rs = Some (of_nat n, rs ! n)"
  by (subst first_rule_Some) auto

lemma first_rule_None: "first_rule P i rs = None \<longleftrightarrow> (\<forall>r \<in> set rs. \<not> P r)"
  by (induction rs arbitrary: i) auto

lemma first_rule_cong: "(\<And>r. r \<in> set rs \<Longrightarrow> P r = Q r) \<Longrightarrow> first_rule P i rs = first_rule Q i rs"
  by (induction rs arbitrary: i) auto

lemma route_cases_first: "route_cases h i rs = first_rule (\<lambda>r. r_hash r = h) i rs"
  by (induction rs arbitrary: i) auto

text \<open>What a fallback rule tests.\<close>

definition fallback_applies :: "dns_query_meta \<Rightarrow> zereh_route \<Rightarrow> bool" where
  "fallback_applies m r \<longleftrightarrow> length (r_domain r) \<le> 127 \<and> suffix (bytes_of (r_domain r)) (qname_of m)"

lemma fallback_rules_first:
  assumes "meta_buf_ok m" and "list_all (\<lambda>r. length (r_domain r) \<le> 255) rs"
  shows "fallback_rules m i rs = first_rule (fallback_applies m) i rs"
proof -
  have "fallback_rules m i rs = first_rule (\<lambda>r. zereh_match_suffix (m_qname m) (m_qname_len m)
           (bytes_of (r_domain r)) (of_nat (length (r_domain r)))) i rs"
    by (induction rs arbitrary: i) auto
  also have "\<dots> = first_rule (fallback_applies m) i rs"
  proof (rule first_rule_cong)
    fix r assume "r \<in> set rs"
    then have "length (bytes_of (r_domain r)) < 2 ^ 16" using assms(2) by (auto simp: list_all_iff)
    then show "zereh_match_suffix (m_qname m) (m_qname_len m) (bytes_of (r_domain r)) (of_nat (length (r_domain r))) =
        fallback_applies m r"
      using suffix_pattern.mtch_meta [OF assms(1), of "bytes_of (r_domain r)"] by (simp add: fallback_applies_def)
  qed
  finally show ?thesis .
qed

section \<open>The whole program\<close>

lemma or_return_simps [simp]:
  "or_return Fault v f = Fault" "or_return Err v f = Ret v" "or_return (Ret x) v f = f x"
  by (simp_all add: or_return_def)

text \<open>A DNS query on port 53, as the parsers see it.\<close>

definition dns_query :: "bytes \<Rightarrow> nat \<Rightarrow> dns_query_meta \<Rightarrow> bool" where
  "dns_query pkt udp m \<longleftrightarrow> (\<exists>eth iph. zereh_parse_eth_ipv4_udp pkt = Ret (eth, iph, udp)) \<and>
     ld16 pkt (udp + 2) = Ret (bpf_htons 53) \<and> zereh_parse_dns_query pkt udp = Ret m"

definition globally_denied :: "xdp_consts \<Rightarrow> bpf_env \<Rightarrow> bytes \<Rightarrow> dns_query_meta \<Rightarrow> bool" where
  "globally_denied cs env pkt m \<longleftrightarrow>
     of_nat (length pkt) > k_max_packet_size cs \<or>
     (\<exists>saddr. ld32 pkt 26 = Ret saddr \<and> env_ip_blacklist env \<lparr>k_prefixlen = 32, k_addr = saddr\<rparr> \<noteq> None) \<or>
     \<not> bit (k_allowed_opcode_mask cs) (unat (m_opcode m)) \<or>
     k_drop_truncated cs \<noteq> 0 \<and> m_is_truncated m \<noteq> 0"

lemma dns_query_layout:
  assumes "dns_query pkt udp m"
  shows "zereh_parse_eth_ipv4_udp pkt = Ret (0, 14, udp)" "34 \<le> udp" "udp + 8 \<le> length pkt" "34 \<le> length pkt"
  using assms by (auto simp: dns_query_def parse_eth_iff)

lemma parsed_meta_wf:
  assumes "zereh_parse_dns_query pkt udp = Ret m"
  shows "meta_wf m"
proof -
  obtain ls flags where ls: "list_all label_ok ls" "ls \<noteq> []" "length (dotted ls) \<le> 255"
      "m = query_meta (m_dns_id m) flags ls (m_qtype m) (m_qclass m)"
    using parse_dns_sound [OF assms] by metis
  have "meta_wf (query_meta (m_dns_id m) flags ls (m_qtype m) (m_qclass m))"
    using ls(1,2,3) dotted_nonempty by (intro query_meta_wf) auto
  then show ?thesis using ls(4) by simp
qed

lemma and_push_bit_0: "(x :: u32) AND push_bit n 1 = 0 \<longleftrightarrow> \<not> bit x n" "x AND 2 ^ n = 0 \<longleftrightarrow> \<not> bit x n"
  by (simp_all add: and_exp_eq_0_iff_not_bit push_bit_eq_mult)

lemma global_pre_route_eq:
  assumes "34 \<le> length pkt" and "m_opcode m \<le> 15"
  shows "zereh_global_pre_route cs env pkt 14 m (of_nat (length pkt)) = (if globally_denied cs env pkt m then Err else Ret ())"
proof -
  obtain s where "ld32 pkt 26 = Ret s" using ld32_ex [of 26 pkt] assms by auto
  then show ?thesis
    using assms(2) by (auto simp: zereh_global_pre_route_def globally_denied_def and_push_bit_0 Let_def)
qed

lemma xdp_router_query:
  assumes "dns_query pkt udp m"
  shows "xdp_router cs routes env rm pkt =
    (if globally_denied cs env pkt m then Ret (Returned XDP_DROP, pkt, rm)
     else zereh_dispatch cs routes env pkt 14 udp rm m)"
proof -
  have "m_opcode m \<le> 15" using assms parsed_meta_wf by (auto simp: dns_query_def meta_wf_def)
  then show ?thesis
    using assms dns_query_layout [OF assms] by (simp add: xdp_router_def dns_query_def global_pre_route_eq)
qed

lemma xdp_router_other:
  assumes "\<nexists>udp m. dns_query pkt udp m"
  shows "xdp_router cs routes env rm pkt = Ret (Returned XDP_PASS, pkt, rm)"
proof (cases "zereh_parse_eth_ipv4_udp pkt")
  case (Ret x)
  obtain e i u where x: "x = (e, i, u)" by (cases x)
  then have "u + 8 \<le> length pkt" using Ret by (simp add: parse_eth_iff)
  then obtain d where d: "ld16 pkt (u + 2) = Ret d" using ld16_ex [of "u + 2" pkt] by auto
  show ?thesis
  proof (cases "d = bpf_htons 53")
    case True
    then have "zereh_parse_dns_query pkt u = Err"
      using assms Ret x d parse_dns_not_Fault [of pkt u] by (cases "zereh_parse_dns_query pkt u") (auto simp: dns_query_def)
    then show ?thesis using Ret x d True by (simp add: xdp_router_def)
  qed (use Ret x d in \<open>simp add: xdp_router_def\<close>)
qed (use parse_eth_not_Fault in \<open>auto simp: xdp_router_def\<close>)

lemma dispatch_total:
  assumes "iph + 20 \<le> length pkt" and "udp + 8 \<le> length pkt"
  obtains v pkt' rm' where "zereh_dispatch cs routes env pkt iph udp rm m = Ret (v, pkt', rm')" "port_rewritten udp pkt pkt'"
proof (cases "select_route (zereh_route_hash (k_hash_algo cs) m) m routes")
  case None
  then show thesis using that by (simp add: dispatch_eq)
next
  case (Some x)
  obtain i r where x: "x = (i, r)" by (cases x)
  let ?h = "zereh_route_hash (k_hash_algo cs) m"
  obtain v pkt' where "route_body cs env pkt iph udp rm m ?h i r =
      Ret (v, pkt', snd (route_filters cs env rm m ?h i r))" "port_rewritten udp pkt pkt'"
    using route_body_total [OF assms] by metis
  then show thesis using that Some x by (simp add: dispatch_eq Let_def)
qed
section \<open>Frames that carry a query\<close>

text \<open>
  An Ethernet frame with an IPv4 header without options and a UDP datagram to port 53:
  \<open>macs\<close> the addresses, \<open>iphdr\<close> the bytes between the version and the protocol.
\<close>

definition dns_frame :: "bytes \<Rightarrow> bytes \<Rightarrow> bytes \<Rightarrow> bytes \<Rightarrow> bytes \<Rightarrow> u16 \<Rightarrow> u16 \<Rightarrow> bytes \<Rightarrow> bytes" where
  "dns_frame macs iphdr check saddr daddr sport chk payload =
     (macs @ be16 0x0800 @ [0x45] @ iphdr @ [17] @ check @ saddr @ daddr) @
     udp_header sport 53 (of_nat (8 + length payload)) chk @ payload @ []"

lemma dns_frame_query:
  fixes i flags qd counts ls qt qc extra
  defines "payload \<equiv> dns_query_payload i flags qd counts ls qt qc extra"
  assumes hdr: "length macs = 12" "length iphdr = 8" "length check = 2" "length saddr = 4" "length daddr = 4"
    and q: "list_all label_ok ls" "ls \<noteq> []" "length ls \<le> 31" "length (dotted ls) \<le> 255"
      "flags AND 0x8000 = 0" "qd \<noteq> 0" "length counts = 6" "8 + length payload < 2 ^ 16"
  shows "dns_query (dns_frame macs iphdr check saddr daddr sport chk payload) 34 (query_meta i flags ls qt qc)"
proof -
  let ?pre = "macs @ be16 0x0800 @ [0x45] @ iphdr @ [17] @ check @ saddr @ daddr"
  let ?p = "dns_frame macs iphdr check saddr daddr sport chk payload"
  have len: "length ?pre = 34" using hdr by simp
  have "zereh_parse_dns_query ?p 34 = Ret (query_meta i flags ls qt qc)"
    using parse_dns_encoded [of ls flags qd counts i qt qc extra ?pre sport 53 chk "[]"] q len
    unfolding dns_frame_def payload_def by simp
  moreover have "ld16 ?p 36 = Ret (bpf_htons 53)"
    using hdr by (intro ld16_be16) (auto simp: dns_frame_def udp_header_def bytes_at_def)
  moreover have "zereh_parse_eth_ipv4_udp ?p = Ret (0, 14, 34)"
  proof -
    have "bytes_at ?p 12 (be16 0x0800)" "?p ! 14 = 0x45" "?p ! 23 = 17" "42 \<le> length ?p"
      using hdr by (auto simp: dns_frame_def bytes_at_def nth_append udp_header_def)
    then show ?thesis by (simp add: parse_eth_iff)
  qed
  ultimately show ?thesis unfolding dns_query_def by auto
qed

text \<open>A query for \<open>ab.c\<close> of type A.\<close>

definition sample_frame :: bytes where
  "sample_frame = dns_frame (replicate 12 0) (replicate 8 0) [0, 0] [10, 0, 0, 1] [10, 0, 0, 2] 4660 1
     (dns_query_payload 7 0x0100 1 [0,0,0,0,0,0] [[97, 98], [99]] 1 1 [])"

definition sample_meta :: dns_query_meta where
  "sample_meta = query_meta 7 0x0100 [[97, 98], [99]] 1 1"

lemma sample_query: "dns_query sample_frame 34 sample_meta"
  unfolding sample_frame_def sample_meta_def
  by (rule dns_frame_query) (simp_all add: label_ok_def dns_query_payload_def be16_def wire_name_def)

lemma sample_meta_fields:
  "m_label_depth sample_meta = 2" "m_qname_len sample_meta = 4" "m_qtype sample_meta = 1" "m_opcode sample_meta = 0"
  "m_is_truncated sample_meta = 0" "qname_of sample_meta = [97, 98, 46, 99]"
  by (simp_all add: sample_meta_def query_meta_def qname_of_def zereh_ascii_tolower_def)

lemma sample_meta_ok: "meta_buf_ok sample_meta"
  using sample_query parsed_meta_wf by (auto simp: dns_query_def meta_wf_def)

lemma length_sample_frame: "length sample_frame = 64"
  by (simp add: sample_frame_def dns_frame_def dns_query_payload_def udp_header_def be16_def wire_name_def)

text \<open>A route without filters, to local port 5302.\<close>

definition sample_route :: zereh_route where
  "sample_route = \<lparr>r_domain = ''ab.c'', r_hash = zereh_hash_domain ''ab.c'' ZEREH_HASH_FNV1A,
     r_target = ZEREH_TARGET_KERNEL_SPACE, r_xsk_queue = 0, r_kernel_port = 5302, r_prog_index = 0,
     r_prog_name = '''', r_prefix = '''', r_suffix = '''', r_min_labels = 1, r_max_labels = 127,
     r_qname_min_len = 1, r_qname_max_len = 255, r_rrtype_mask = 15, r_pow_enabled = 0, r_pow_difficulty = 0,
     r_pow_time_window = 0, r_bloom_enabled = 0, r_bloom_size = 0, r_bloom_hash_functions = 0,
     r_bloom_time_window = 0, r_bloom_seeds = [], r_rate_limit_qps = 0\<rparr>"

section \<open>Properties\<close>

text \<open>
  (C4) The XDP program is memory safe and total: for every packet, configuration and state
  of the maps it returns a verdict without an out-of-range access, and the packet it
  leaves has the same length and differs at most in the destination port and the checksum
  of its UDP header, and only if the packet is a DNS query on port 53.
\<close>

theorem xdp_router_total:
  "\<exists>v pkt' rm'. xdp_router cs routes env rm pkt = Ret (v, pkt', rm') \<and>
     (pkt' = pkt \<or> (\<exists>udp m. dns_query pkt udp m \<and> port_rewritten udp pkt pkt'))"
proof (cases "\<exists>udp m. dns_query pkt udp m")
  case True
  then obtain udp m where q: "dns_query pkt udp m" by blast
  then obtain v pkt' rm' where "zereh_dispatch cs routes env pkt 14 udp rm m = Ret (v, pkt', rm')" "port_rewritten udp pkt pkt'"
    using dispatch_total [of 14 pkt udp cs routes env rm m] dns_query_layout [OF q] by auto
  then show ?thesis using xdp_router_query [OF q] q by (auto split: if_splits)
qed (use xdp_router_other in blast)

text \<open>A frame that carries an IPv4 header, a UDP header after it and port 53 in that.\<close>

definition to_dns_port :: "bytes \<Rightarrow> bool" where
  "to_dns_port pkt \<longleftrightarrow> 34 \<le> length pkt \<and> bytes_at pkt 12 [0x08, 0x00] \<and> pkt ! 23 = 17 \<and>
     (let words = unat (pkt ! 14 AND 15); udp = 14 + 4 * words in
      5 \<le> words \<and> udp + 8 \<le> length pkt \<and> bytes_at pkt (udp + 2) [0, 53])"

lemma dns_query_to_dns_port: "dns_query pkt udp m \<Longrightarrow> to_dns_port pkt"
proof -
  have "be16 0x0800 = [0x08, 0x00]" "be16 53 = [0, 53]" by (simp_all add: be16_def)
  then show "dns_query pkt udp m \<Longrightarrow> to_dns_port pkt"
    by (auto simp: dns_query_def to_dns_port_def parse_eth_iff ld16_Ret_iff bpf_ntohs_ntohs Let_def)
qed

text \<open>
  (C10) The router leaves traffic that is not for it alone: every frame that is not IPv4/UDP to
  port 53 is handed to the kernel unchanged, and no rate counter moves, whatever the
  configuration and the maps.
\<close>

theorem other_traffic_passes:
  assumes "\<not> to_dns_port pkt"
  shows "xdp_router cs routes env rm pkt = Ret (Returned XDP_PASS, pkt, rm)"
  using assms dns_query_to_dns_port by (intro xdp_router_other) blast

theorem other_traffic_passes_witness:
  "xdp_router \<lparr>k_max_packet_size = 0, k_allowed_opcode_mask = 0, k_drop_truncated = 1, k_default_action = 1,
       k_hash_algo = 0, k_rate_state_entries = 1\<rparr> [sample_route]
     \<lparr>env_ip_blacklist = \<lambda>k. Some 1, env_pow_bloom = \<lambda>i. None, env_redirect_map = \<lambda>i f. 4, env_tail_call = \<lambda>i. False,
       env_clock = \<lparr>t_rate = 0, t_pow = 0, t_bloom = 0\<rparr>\<rparr> (\<lambda>i. None)
     ([1, 1, 1, 1, 1, 1, 2, 2, 2, 2, 2, 2, 8, 0, 0x45, 0, 0, 28, 0, 0, 0, 0, 64, 17, 0, 0, 10, 0, 0, 1, 10, 0, 0, 2,
       0x12, 0x34, 0, 80, 0, 8, 0, 0])
   = Ret (Returned XDP_PASS,
     [1, 1, 1, 1, 1, 1, 2, 2, 2, 2, 2, 2, 8, 0, 0x45, 0, 0, 28, 0, 0, 0, 0, 64, 17, 0, 0, 10, 0, 0, 1, 10, 0, 0, 2,
      0x12, 0x34, 0, 80, 0, 8, 0, 0], \<lambda>i. None)"
  by (rule other_traffic_passes) (simp add: to_dns_port_def bytes_at_def)

text \<open>
  (C3) The verdict on every query the parser accepts. A query that is larger than the
  configured size, comes from a blacklisted source, has an opcode outside the allowed mask
  or is truncated while truncated queries are to be dropped, is dropped with no effect on
  packet and counters. Every other query is handled by the first route in the table whose
  stored hash is the query's, under that route's index; if no route has this hash, by the
  first route whose domain, of at most 127 bytes, ends the query's name; else by the default
  action.
\<close>

theorem query_verdict:
  assumes "dns_query pkt udp m" and "\<forall>r \<in> set routes. length (r_domain r) \<le> 255"
    and "h = zereh_route_hash (k_hash_algo cs) m"
  shows "(globally_denied cs env pkt m \<longrightarrow> xdp_router cs routes env rm pkt = Ret (Returned XDP_DROP, pkt, rm)) \<and>
    (\<not> globally_denied cs env pkt m \<longrightarrow>
      (\<forall>n < length routes. r_hash (routes ! n) = h \<and> (\<forall>k < n. r_hash (routes ! k) \<noteq> h) \<longrightarrow>
         xdp_router cs routes env rm pkt = route_body cs env pkt 14 udp rm m h (of_nat n) (routes ! n)) \<and>
      ((\<forall>r \<in> set routes. r_hash r \<noteq> h) \<longrightarrow>
        (\<forall>n < length routes.
           length (r_domain (routes ! n)) \<le> 127 \<and> suffix (bytes_of (r_domain (routes ! n))) (qname_of m) \<and>
           (\<forall>k < n. \<not> (length (r_domain (routes ! k)) \<le> 127 \<and> suffix (bytes_of (r_domain (routes ! k))) (qname_of m))) \<longrightarrow>
           xdp_router cs routes env rm pkt = route_body cs env pkt 14 udp rm m h (of_nat n) (routes ! n)) \<and>
        ((\<forall>r \<in> set routes. \<not> (length (r_domain r) \<le> 127 \<and> suffix (bytes_of (r_domain r)) (qname_of m))) \<longrightarrow>
           xdp_router cs routes env rm pkt = Ret (Returned (k_default_action cs), pkt, rm))))"
proof -
  have buf: "meta_buf_ok m" using assms(1) parsed_meta_wf by (auto simp: dns_query_def meta_wf_def)
  have sel: "select_route h m routes = (case first_rule (\<lambda>r. r_hash r = h) 0 routes of Some x \<Rightarrow> Some x
      | None \<Rightarrow> first_rule (fallback_applies m) 0 routes)"
    using fallback_rules_first [OF buf] assms(2)
    by (simp add: select_route_def route_cases_first list_all_iff cong: option.case_cong)
  have run: "xdp_router cs routes env rm pkt = (case select_route h m routes of
      Some (i, r) \<Rightarrow> route_body cs env pkt 14 udp rm m h i r
    | None \<Rightarrow> Ret (Returned (k_default_action cs), pkt, rm))" if "\<not> globally_denied cs env pkt m"
    using that xdp_router_query [OF assms(1)] unfolding assms(3) by (simp add: dispatch_eq Let_def)
  have none: "(\<forall>r \<in> set routes. r_hash r \<noteq> h) \<Longrightarrow> first_rule (\<lambda>r. r_hash r = h) 0 routes = None"
    by (simp add: first_rule_None)
  show ?thesis
  proof (intro conjI impI allI)
    fix n assume "\<not> globally_denied cs env pkt m" "n < length routes"
      "r_hash (routes ! n) = h \<and> (\<forall>k < n. r_hash (routes ! k) \<noteq> h)"
    then show "xdp_router cs routes env rm pkt = route_body cs env pkt 14 udp rm m h (of_nat n) (routes ! n)"
      using run first_rule_nth [of n routes "\<lambda>r. r_hash r = h"] by (simp add: sel)
  next
    fix n assume "\<not> globally_denied cs env pkt m" "\<forall>r \<in> set routes. r_hash r \<noteq> h" "n < length routes"
      "length (r_domain (routes ! n)) \<le> 127 \<and> suffix (bytes_of (r_domain (routes ! n))) (qname_of m) \<and>
       (\<forall>k < n. \<not> (length (r_domain (routes ! k)) \<le> 127 \<and> suffix (bytes_of (r_domain (routes ! k))) (qname_of m)))"
    then show "xdp_router cs routes env rm pkt = route_body cs env pkt 14 udp rm m h (of_nat n) (routes ! n)"
      using run none first_rule_nth [of n routes "fallback_applies m"] by (simp add: sel fallback_applies_def)
  next
    assume "\<not> globally_denied cs env pkt m" "\<forall>r \<in> set routes. r_hash r \<noteq> h"
      "\<forall>r \<in> set routes. \<not> (length (r_domain r) \<le> 127 \<and> suffix (bytes_of (r_domain r)) (qname_of m))"
    then show "xdp_router cs routes env rm pkt = Ret (Returned (k_default_action cs), pkt, rm)"
      using run none first_rule_None [of "fallback_applies m" 0 routes] by (simp add: sel fallback_applies_def)
  qed (use xdp_router_query [OF assms(1)] in simp)
qed

text \<open>Three routes: neither the first has the query's hash nor the third is tried.\<close>

theorem query_verdict_witness:
  "let cs = \<lparr>k_max_packet_size = 1400, k_allowed_opcode_mask = 1, k_drop_truncated = 0, k_default_action = 1,
         k_hash_algo = 0, k_rate_state_entries = 3\<rparr>;
       env = \<lparr>env_ip_blacklist = \<lambda>k. None, env_pow_bloom = \<lambda>i. None, env_redirect_map = \<lambda>i f. 4,
         env_tail_call = \<lambda>i. False, env_clock = \<lparr>t_rate = 0, t_pow = 0, t_bloom = 0\<rparr>\<rparr>;
       h = zereh_route_hash 0 sample_meta;
       target = sample_route\<lparr>r_hash := h, r_target := ZEREH_TARGET_USER_SPACE\<rparr>
   in xdp_router cs [sample_route\<lparr>r_hash := h + 1\<rparr>, target, sample_route\<lparr>r_hash := h\<rparr>] env (\<lambda>i. None) sample_frame
      = route_body cs env sample_frame 14 34 (\<lambda>i. None) sample_meta h 1 target"
proof -
  let ?cs = "\<lparr>k_max_packet_size = 1400, k_allowed_opcode_mask = 1, k_drop_truncated = 0, k_default_action = 1,
         k_hash_algo = 0, k_rate_state_entries = 3\<rparr> :: xdp_consts"
  let ?env = "\<lparr>env_ip_blacklist = \<lambda>k. None, env_pow_bloom = \<lambda>i. None, env_redirect_map = \<lambda>i f. 4,
         env_tail_call = \<lambda>i. False, env_clock = \<lparr>t_rate = 0, t_pow = 0, t_bloom = 0\<rparr>\<rparr> :: bpf_env"
  let ?h = "zereh_route_hash 0 sample_meta"
  let ?rs = "[sample_route\<lparr>r_hash := ?h + 1\<rparr>, sample_route\<lparr>r_hash := ?h, r_target := ZEREH_TARGET_USER_SPACE\<rparr>,
     sample_route\<lparr>r_hash := ?h\<rparr>]"
  have d: "\<forall>r \<in> set ?rs. length (r_domain r) \<le> 255" by (simp add: sample_route_def)
  have h: "?h = zereh_route_hash (k_hash_algo ?cs) sample_meta" by simp
  have "\<not> globally_denied ?cs ?env sample_frame sample_meta"
    by (simp add: globally_denied_def length_sample_frame sample_meta_fields bit_1_iff)
  from query_verdict [OF sample_query d h, THEN conjunct2, THEN mp, OF this, THEN conjunct1, THEN spec, of 1]
  show ?thesis unfolding Let_def by simp
qed

text \<open>
  (C12) Delivery to a local port keeps the checksums right: the destination port becomes the
  new one and the address the new one if it is not 0, nothing else changes but the two
  checksums, the IP header checksum still covers the header, an absent UDP checksum stays
  absent, and a UDP checksum that is present afterwards still covers address and port.
\<close>

theorem kernel_space_rewrite:
  assumes "iph + 20 \<le> udp" and "udp + 8 \<le> length pkt"
    and "ld32 pkt (iph + 16) = Ret d" and "ld16 pkt (iph + 10) = Ret ic"
    and "ld16 pkt (udp + 2) = Ret dp" and "ld16 pkt (udp + 6) = Ret uc"
  shows "\<exists>pkt' ic' uc'. zereh_route_kernel_space pkt iph udp p a = Ret (XDP_PASS, pkt') \<and>
    length pkt' = length pkt \<and> ld16 pkt' (udp + 2) = Ret p \<and>
    ld32 pkt' (iph + 16) = Ret (if a = 0 then d else a) \<and>
    ld16 pkt' (iph + 10) = Ret ic' \<and> ld16 pkt' (udp + 6) = Ret uc' \<and>
    (unat ic' + sum32 (if a = 0 then d else a)) mod 65535 = (unat ic + sum32 d) mod 65535 \<and>
    (uc = 0 \<longrightarrow> uc' = 0) \<and>
    (uc' \<noteq> 0 \<longrightarrow> (unat uc' + sum32 (if a = 0 then d else a) + unat p) mod 65535
        = (unat uc + sum32 d + unat dp) mod 65535) \<and>
    (\<forall>k. k \<notin> {udp + 2, udp + 3, udp + 6, udp + 7} \<longrightarrow>
       a = 0 \<or> k \<notin> {iph + 10, iph + 11, iph + 16, iph + 17, iph + 18, iph + 19} \<longrightarrow> pkt' ! k = pkt ! k)"
  by (rule kernel_space_spec [OF assms, of p a]) blast

theorem kernel_space_rewrite_witness:
  "\<exists>pkt'. zereh_route_kernel_space (replicate 28 1) 0 20 0x3500 7 = Ret (XDP_PASS, pkt') \<and>
     ld16 pkt' 22 = Ret 0x3500 \<and> ld32 pkt' 16 = Ret 7 \<and> pkt' ! 20 = 1"
proof -
  let ?p = "replicate 28 1 :: bytes"
  have "ld32 ?p (0 + 16) = Ret 0x01010101" "ld16 ?p (0 + 10) = Ret 0x0101"
    "ld16 ?p (20 + 2) = Ret 0x0101" "ld16 ?p (20 + 6) = Ret 0x0101"
    by (simp_all add: ld32_def ld16_def ld8_def)
  from kernel_space_rewrite [OF _ _ this, of "0x3500" 7] obtain pkt' where
    "zereh_route_kernel_space ?p 0 20 0x3500 7 = Ret (XDP_PASS, pkt')" "ld16 pkt' (20 + 2) = Ret 0x3500"
    "ld32 pkt' (0 + 16) = Ret 7" "pkt' ! 20 = ?p ! 20"
    by auto
  then show ?thesis by auto
qed

text \<open>
  (C11) Routes fail closed: a packet that a route's filters reject is dropped unchanged, and a
  packet for a program that the tail call does not find is dropped; a packet that passes
  goes where the route's target says, a local port receiving it with that port as
  destination.
\<close>

theorem route_body_verdict:
  assumes "iph + 20 \<le> length pkt" and "udp + 8 \<le> length pkt"
  shows "\<exists>v pkt'. route_body cs env pkt iph udp rm m h i r =
      Ret (v, pkt', snd (route_filters cs env rm m h i r)) \<and>
    (\<not> fst (route_filters cs env rm m h i r) \<longrightarrow> v = Returned XDP_DROP \<and> pkt' = pkt) \<and>
    (fst (route_filters cs env rm m h i r) \<longrightarrow> (case r_target r of
       ZEREH_TARGET_USER_SPACE \<Rightarrow> v = Returned (env_redirect_map env (r_xsk_queue r) 0) \<and> pkt' = pkt
     | ZEREH_TARGET_KERNEL_SPACE \<Rightarrow> v = Returned XDP_PASS \<and> port_rewritten udp pkt pkt' \<and>
         bytes_at pkt' (udp + 2) (be16 (r_kernel_port r))
     | ZEREH_TARGET_XDP_PROG \<Rightarrow> pkt' = pkt \<and>
         v = (if env_tail_call env (r_prog_index r) then Tail_called (r_prog_index r) else Returned XDP_DROP)))"
proof (cases "r_target r")
  case ZEREH_TARGET_KERNEL_SPACE
  obtain pkt' where "zereh_route_kernel_space pkt iph udp (bpf_htons (r_kernel_port r)) 0 = Ret (XDP_PASS, pkt')"
    "port_rewritten udp pkt pkt'" "ld16 pkt' (udp + 2) = Ret (bpf_htons (r_kernel_port r))"
    using kernel_space_port [OF assms, of "bpf_htons (r_kernel_port r)"] by metis
  then show ?thesis
    using ZEREH_TARGET_KERNEL_SPACE by (auto simp: route_body_def route_action_def split_beta ld16_Ret_iff)
qed (auto simp: route_body_def route_action_def split_beta)

theorem route_body_verdict_witness:
  "\<exists>pkt'. route_body (consts_of_config zereh_config_init_defaults)
      \<lparr>env_ip_blacklist = \<lambda>k. None, env_pow_bloom = \<lambda>i. None, env_redirect_map = \<lambda>i f. 4, env_tail_call = \<lambda>i. False,
       env_clock = \<lparr>t_rate = 0, t_pow = 0, t_bloom = 0\<rparr>\<rparr> sample_frame 14 34 (\<lambda>i. None) sample_meta 0 0 sample_route
     = Ret (Returned XDP_PASS, pkt', \<lambda>i. None) \<and> bytes_at pkt' 36 (be16 5302)"
proof -
  let ?env = "\<lparr>env_ip_blacklist = \<lambda>k. None, env_pow_bloom = \<lambda>i. None, env_redirect_map = \<lambda>i f. 4,
    env_tail_call = \<lambda>i. False, env_clock = \<lparr>t_rate = 0, t_pow = 0, t_bloom = 0\<rparr>\<rparr> :: bpf_env"
  have f: "route_filters (consts_of_config zereh_config_init_defaults) ?env (\<lambda>i. None) sample_meta 0 0 sample_route
      = (True, \<lambda>i. None)"
    using sample_meta_fields
    by (simp add: route_filters_def sample_route_def zereh_apply_app_filters_def zereh_type_allowed_def
      zereh_match_prefix_def zereh_match_suffix_def zereh_rate_limit_allow_def zereh_pow_allow_def bytes_of_def)
  show ?thesis
    using route_body_verdict [of 14 sample_frame 34 "consts_of_config zereh_config_init_defaults" ?env
        "\<lambda>i. None" sample_meta 0 0 sample_route] f
    by (auto simp: length_sample_frame sample_route_def)
qed

end
