(* ===== verification/Zereh_Seed.thy ===== *)
theory Zereh_Seed
  imports Zereh_Router
begin

text \<open>
  The parts of \<open>control/loader.c\<close> that compute what is loaded into the maps and where the
  link is pinned: CIDR parsing for \<open>ip_blacklist\<close>, the Bloom filter words for
  \<open>pow_bloom\<close>, and the pin path.

  \<open>inet_pton\<close> follows the C library's algorithm (four decimal octets, no leading zeros);
  \<open>s_addr\<close> holds the octets in memory order, so it compares with the source address the
  data plane loads from a packet. \<open>time (NULL)\<close> is a parameter, read once per route. The
  copies into the path buffer are checked.
\<close>

section \<open>Definitions\<close>

subsection \<open>The pin path\<close>

definition zereh_build_pin_path :: "nat \<Rightarrow> string \<Rightarrow> string cres" where
  "zereh_build_pin_path out_len ifname = (
     let pin_dir = ''/sys/fs/bpf/zereh''; link_prefix = ''/xdp_link_'' in
     if out_len = 0 \<or> ifname = [] then Err else
     let ifname_len = min (length ifname) IFNAMSIZ in
     if ifname_len = 0 \<or> ifname_len \<ge> IFNAMSIZ then Err else
     let need = length pin_dir + length link_prefix + ifname_len + 1 in
     if need > out_len then Err else
     cres_bind (copy_in_buf 0 (length pin_dir) out_len) (\<lambda>_.
     cres_bind (copy_in_buf (length pin_dir) (length link_prefix) out_len) (\<lambda>_.
     cres_bind (copy_in_buf (length pin_dir + length link_prefix) ifname_len out_len) (\<lambda>_.
     cres_bind (in_buf (need - 1) out_len) (\<lambda>_.
     Ret (pin_dir @ link_prefix @ take ifname_len ifname))))))"

subsection \<open>Addresses\<close>

text \<open>
  \<open>inet_pton (AF_INET, ...)\<close>: the octets completed, the current one, whether it has a digit,
  and the number of octets begun.
\<close>

fun pton_loop :: "string \<Rightarrow> nat list \<Rightarrow> nat \<Rightarrow> bool \<Rightarrow> nat \<Rightarrow> nat list option" where
  "pton_loop [] completed cur saw_digit octets = (if octets < 4 then None else Some (completed @ [cur]))"
| "pton_loop (ch # cs) completed cur saw_digit octets =
     (if c_isdigit ch then
        (let new = cur * 10 + (of_char ch - 48) in
         if saw_digit \<and> cur = 0 then None
         else if new > 255 then None
         else if \<not> saw_digit \<and> octets + 1 > 4 then None
         else pton_loop cs completed new True (if saw_digit then octets else octets + 1))
      else if ch = CHR ''.'' \<and> saw_digit then
        (if octets = 4 then None else pton_loop cs (completed @ [cur]) 0 False octets)
      else None)"

definition inet_pton4 :: "string \<Rightarrow> nat list option" where
  "inet_pton4 src = pton_loop src [] 0 False 0"

definition s_addr :: "nat list \<Rightarrow> u32" where
  "s_addr os = of_nat (os ! 0) OR push_bit 8 (of_nat (os ! 1)) OR push_bit 16 (of_nat (os ! 2)) OR
     push_bit 24 (of_nat (os ! 3))"

definition zereh_parse_cidr_v4 :: "string \<Rightarrow> lpm_v4_key option" where
  "zereh_parse_cidr_v4 cidr = (
     let tmp = snprintf_s ZEREH_MAX_CIDR_LEN cidr;
         addr_text = takeWhile (\<lambda>c. c \<noteq> CHR ''/'') tmp;
         prefix_opt = (if CHR ''/'' \<in> set tmp
            then (let rest = tl (dropWhile (\<lambda>c. c \<noteq> CHR ''/'') tmp);
                      (pl, end_text) = strtol10 rest
                  in if end_text = rest \<or> end_text \<noteq> [] \<or> pl < 0 \<or> pl > 32 then None else Some pl)
            else Some 32)
     in case prefix_opt of None \<Rightarrow> None
      | Some pl \<Rightarrow> (case inet_pton4 addr_text of None \<Rightarrow> None
          | Some os \<Rightarrow> Some \<lparr>k_prefixlen = of_int pl, k_addr = s_addr os\<rparr>))"

subsection \<open>Bloom filter words\<close>

definition ctl_mix64 :: "u64 \<Rightarrow> u64" where
  "ctl_mix64 x = (
     let x = x XOR drop_bit 33 x; x = x * 0xff51afd7ed558ccd;
         x = x XOR drop_bit 33 x; x = x * 0xc4ceb9fe1a85ec53;
         x = x XOR drop_bit 33 x
     in x)"

definition zereh_route_bloom_bits :: "zereh_route \<Rightarrow> u32" where
  "zereh_route_bloom_bits route = (
     if r_bloom_enabled route = 0 then 0 else
     let bits = r_bloom_size route;
         bits = (if bits < 64 then 64 else bits);
         bits = (if bits > ZEREH_BLOOM_BITS then ZEREH_BLOOM_BITS else bits)
     in bits)"

definition zereh_route_bloom_hash_functions :: "zereh_route \<Rightarrow> u8" where
  "zereh_route_bloom_hash_functions route = (
     let hf = r_bloom_hash_functions route in
     if r_bloom_enabled route = 0 then 0 else
     let hf = (if hf = 0 then 3 else hf);
         hf = (if hf > 8 then 8 else hf)
     in hf)"

text \<open>
  \<open>for (k = 0; k < hash_functions; k++)\<close>, \<open>n\<close> iterations remaining; the store into \<open>words\<close> is
  checked against its length
\<close>

fun set_bits_loop :: "nat \<Rightarrow> nat \<Rightarrow> u64 list \<Rightarrow> u64 \<Rightarrow> u32 \<Rightarrow> u64 \<Rightarrow> u64 list cres" where
  "set_bits_loop 0 k words route_hash bloom_bits bucket = Ret words"
| "set_bits_loop (Suc n) k words route_hash bloom_bits bucket = (
     let mixed = ctl_mix64 (route_hash XOR ((of_nat k + 1) * 0x9e3779b97f4a7c15) XOR
                            (bucket * 0x517cc1b727220a95));
         b = ucast (mixed mod ucast bloom_bits) :: u32;
         idx = drop_bit 6 b; off = b AND 63
     in cres_bind (if idx < ZEREH_BLOOM_WORDS
                   then cres_bind (in_buf (unat idx) (length words)) (\<lambda>_.
                        Ret (words[unat idx := words ! unat idx OR push_bit (unat off) 1]))
                   else Ret words) (\<lambda>words.
        set_bits_loop n (k + 1) words route_hash bloom_bits bucket))"

definition zereh_bloom_set_bits_for_seed :: "u64 list \<Rightarrow> u64 \<Rightarrow> u32 \<Rightarrow> u8 \<Rightarrow> u64 \<Rightarrow> u64 list cres" where
  "zereh_bloom_set_bits_for_seed words route_hash bloom_bits hash_functions bucket =
     set_bits_loop (unat hash_functions) 0 words route_hash bloom_bits bucket"

text \<open>
  The loop over a route's seeds; it goes on with the words stored (\<open>set_bits_for_seed_Ret\<close> shows
  that there is no fault on the array of \<open>zereh_seed_bloom_map\<close>).
\<close>

fun seed_loop :: "zereh_hash_algorithm \<Rightarrow> u32 \<Rightarrow> u8 \<Rightarrow> u16 \<Rightarrow> u64 \<Rightarrow> string list \<Rightarrow> u64 list \<Rightarrow> u64 list" where
  "seed_loop algo bloom_bits hash_functions time_window bucket [] words = words"
| "seed_loop algo bloom_bits hash_functions time_window bucket (s # ss) words = (
     let seed_hash = zereh_hash_domain s algo in
     if seed_hash = 0 then seed_loop algo bloom_bits hash_functions time_window bucket ss words else
     let words = the_ret (zereh_bloom_set_bits_for_seed words seed_hash bloom_bits hash_functions bucket);
         words = (if time_window > 0 \<and> bucket > 0
                  then the_ret (zereh_bloom_set_bits_for_seed words seed_hash bloom_bits hash_functions (bucket - 1))
                  else words)
     in seed_loop algo bloom_bits hash_functions time_window bucket ss words)"

definition seed_route :: "zereh_hash_algorithm \<Rightarrow> u64 \<Rightarrow> zereh_route \<Rightarrow> u64 list \<Rightarrow> u64 list" where
  "seed_route algo now_sec route words = (
     if r_bloom_enabled route = 0 then words else
     let bloom_bits = zereh_route_bloom_bits route;
         hash_functions = zereh_route_bloom_hash_functions route in
     if bloom_bits = 0 \<or> hash_functions = 0 then words else
     let bucket = (if r_bloom_time_window route > 0 then now_sec div ucast (r_bloom_time_window route) else 0)
     in seed_loop algo bloom_bits hash_functions (r_bloom_time_window route) bucket (r_bloom_seeds route) words)"

text \<open>The words before they are written to the map; \<open>now i\<close> is the time read for route \<open>i\<close>.\<close>

fun routes_words :: "zereh_hash_algorithm \<Rightarrow> (nat \<Rightarrow> u64) \<Rightarrow> nat \<Rightarrow> zereh_route list \<Rightarrow> u64 list \<Rightarrow> u64 list" where
  "routes_words algo now i [] words = words"
| "routes_words algo now i (r # rs) words = routes_words algo now (i + 1) rs (seed_route algo (now i) r words)"

definition bloom_words :: "zereh_config \<Rightarrow> (nat \<Rightarrow> u64) \<Rightarrow> u64 list" where
  "bloom_words cfg now = routes_words (c_hash_algo cfg) now 0 (c_routes cfg) (replicate 1024 0)"

section \<open>Pin paths\<close>

lemma build_pin_path_eq:
  "zereh_build_pin_path out_len ifname =
     (if 0 < length ifname \<and> length ifname < 16 \<and> 28 + length ifname \<le> out_len
      then Ret (''/sys/fs/bpf/zereh/xdp_link_'' @ ifname) else Err)"
  by (auto simp: zereh_build_pin_path_def copy_in_buf_def Let_def min_def)

lemma build_pin_path_iff:
  "zereh_build_pin_path out_len ifname = Ret p \<longleftrightarrow>
     0 < length ifname \<and> length ifname < 16 \<and> 28 + length ifname \<le> out_len \<and>
     p = ''/sys/fs/bpf/zereh/xdp_link_'' @ ifname"
  by (auto simp: build_pin_path_eq)

section \<open>Bloom filter\<close>

lemma ctl_mix64_eq: "ctl_mix64 = zereh_mix64"
  by (simp add: fun_eq_iff ctl_mix64_def zereh_mix64_def)

text \<open>Seeding only sets bits.\<close>

definition words_le :: "u64 list \<Rightarrow> u64 list \<Rightarrow> bool" where
  "words_le ws ws' \<longleftrightarrow> length ws' = length ws \<and> (\<forall>i < length ws. \<forall>n. bit (ws ! i) n \<longrightarrow> bit (ws' ! i) n)"

lemma words_le_refl [simp]: "words_le ws ws"
  by (simp add: words_le_def)

lemma words_le_trans: "words_le a b \<Longrightarrow> words_le b c \<Longrightarrow> words_le a c"
  by (simp add: words_le_def)

lemma words_le_or: "words_le ws (ws[i := ws ! i OR x])"
proof -
  have "bit (ws ! j) n \<Longrightarrow> bit (ws[i := ws ! i OR x] ! j) n" if "j < length ws" for j n
    using that by (cases "i = j") (simp_all add: bit_or_iff)
  then show ?thesis by (simp add: words_le_def)
qed

definition bit_is_set :: "u64 list \<Rightarrow> u32 \<Rightarrow> bool" where
  "bit_is_set ws b \<longleftrightarrow> unat (drop_bit 6 b) < length ws \<and> bit (ws ! unat (drop_bit 6 b)) (unat (b AND 63))"

lemma bit_is_set_mono: "words_le ws ws' \<Longrightarrow> bit_is_set ws b \<Longrightarrow> bit_is_set ws' b"
  by (auto simp: words_le_def bit_is_set_def)

lemma off_lt_64: "unat (b AND 63 :: u32) < 64"
proof -
  have "b AND 63 \<le> 63" by (rule word_and_le1)
  then show ?thesis by (simp add: word_le_nat_alt)
qed

lemma bit_is_set_update:
  assumes "unat (drop_bit 6 b) < length ws"
  shows "bit_is_set (ws[unat (drop_bit 6 b) := ws ! unat (drop_bit 6 b) OR push_bit (unat (b AND 63)) 1]) b"
  using assms off_lt_64 [of b] by (simp add: bit_is_set_def bit_simps)

lemma set_bits_loop_Ret:
  "length ws = 1024 \<Longrightarrow> \<exists>ws'. set_bits_loop n k ws h bits bucket = Ret ws' \<and> words_le ws ws'"
proof (induction n arbitrary: k ws)
  case (Suc n)
  let ?b = "bloom_bit h bits k bucket"
  let ?ws = "if drop_bit 6 ?b < 1024
    then ws[unat (drop_bit 6 ?b) := ws ! unat (drop_bit 6 ?b) OR push_bit (unat (?b AND 63)) 1] else ws"
  have step: "set_bits_loop (Suc n) k ws h bits bucket = set_bits_loop n (k + 1) ?ws h bits bucket"
    using Suc.prems by (simp add: Let_def bloom_bit_def ctl_mix64_eq word_less_nat_alt)
  have le: "words_le ws ?ws" and len: "length ?ws = 1024" using Suc.prems by (simp_all add: words_le_or)
  show ?case unfolding step using Suc.IH [OF len, of "k + 1"] words_le_trans [OF le] by blast
qed simp

text \<open>No store is outside the array of 1024 words, and bits are only set.\<close>

lemma set_bits_for_seed_Ret:
  "length ws = 1024 \<Longrightarrow> \<exists>ws'. zereh_bloom_set_bits_for_seed ws h bits fns bucket = Ret ws' \<and> words_le ws ws'"
  by (simp add: zereh_bloom_set_bits_for_seed_def set_bits_loop_Ret)

lemma set_bits_loop_sets:
  assumes "length ws = 1024" and "0 < bits" and "bits \<le> 65536" and "k \<le> j" and "j < k + n"
  shows "bit_is_set (the_ret (set_bits_loop n k ws h bits bucket)) (bloom_bit h bits j bucket)"
  using assms
proof (induction n arbitrary: k ws)
  case (Suc n)
  let ?b = "bloom_bit h bits k bucket"
  let ?ws = "ws[unat (drop_bit 6 ?b) := ws ! unat (drop_bit 6 ?b) OR push_bit (unat (?b AND 63)) 1]"
  have "unat ?b < 65536"
    using bloom_bit_less [OF Suc.prems(2), of h k bucket] Suc.prems(3) by (simp add: word_less_nat_alt word_le_nat_alt)
  then have idx: "unat (drop_bit 6 ?b) < 1024" by (simp add: drop_bit_eq_div unat_div)
  then have "drop_bit 6 ?b < 1024" by (simp add: word_less_nat_alt)
  then have step: "set_bits_loop (Suc n) k ws h bits bucket = set_bits_loop n (k + 1) ?ws h bits bucket"
    using idx Suc.prems(1) by (simp add: Let_def bloom_bit_def ctl_mix64_eq)
  have len: "length ?ws = 1024" using Suc.prems(1) by simp
  show ?case
  proof (cases "j = k")
    case True
    have "bit_is_set ?ws ?b" using bit_is_set_update idx Suc.prems(1) by simp
    then show ?thesis
      using bit_is_set_mono set_bits_loop_Ret [OF len, of n "k + 1" h bits bucket] True step by fastforce
  next
    case False
    then show ?thesis using Suc.IH [of ?ws "k + 1"] Suc.prems step by simp
  qed
qed simp

lemma set_bits_for_seed_le: "length ws = 1024 \<Longrightarrow> words_le ws (the_ret (zereh_bloom_set_bits_for_seed ws h bits fns bucket))"
  using set_bits_for_seed_Ret [of ws h bits fns bucket] by auto

lemma words_le_length: "words_le ws ws' \<Longrightarrow> length ws = 1024 \<Longrightarrow> length ws' = 1024"
  by (simp add: words_le_def)

text \<open>The two calls for one seed.\<close>

lemma two_buckets_le:
  assumes "length ws = 1024" and "w1 = the_ret (zereh_bloom_set_bits_for_seed ws h bits fns bucket)"
  shows "words_le ws w1" "words_le w1 (if c then the_ret (zereh_bloom_set_bits_for_seed w1 h bits fns b) else w1)"
proof -
  show w1: "words_le ws w1" unfolding assms(2) using assms(1) by (rule set_bits_for_seed_le)
  then have "length w1 = 1024" using words_le_length assms(1) by blast
  then show "words_le w1 (if c then the_ret (zereh_bloom_set_bits_for_seed w1 h bits fns b) else w1)"
    using set_bits_for_seed_le by simp
qed

lemma seed_loop_le: "length ws = 1024 \<Longrightarrow> words_le ws (seed_loop algo bits fns w bucket ss ws)"
proof (induction ss arbitrary: ws)
  case (Cons s ss)
  let ?h = "zereh_hash_domain s algo"
  let ?w1 = "the_ret (zereh_bloom_set_bits_for_seed ws ?h bits fns bucket)"
  let ?w2 = "if w > 0 \<and> bucket > 0 then the_ret (zereh_bloom_set_bits_for_seed ?w1 ?h bits fns (bucket - 1)) else ?w1"
  have "words_le ws ?w2" using words_le_trans [OF two_buckets_le [OF Cons.prems refl]] .
  moreover then have "length ?w2 = 1024" using words_le_length Cons.prems by blast
  ultimately have "words_le ws ?w2" "length ?w2 = 1024" by blast+
  then have "words_le ws (seed_loop algo bits fns w bucket ss ?w2)"
    using Cons.IH words_le_trans by blast
  then show ?case using Cons by (simp add: Let_def)
qed simp

lemma seed_route_le: "length ws = 1024 \<Longrightarrow> words_le ws (seed_route algo now r ws)"
  by (simp add: seed_route_def Let_def seed_loop_le)

lemma routes_words_le: "length ws = 1024 \<Longrightarrow> words_le ws (routes_words algo now i rs ws)"
proof (induction rs arbitrary: i ws)
  case (Cons r rs)
  have "words_le ws (seed_route algo (now i) r ws)" using Cons.prems by (rule seed_route_le)
  then show ?case using Cons.IH words_le_trans words_le_length Cons.prems by simp
qed simp

text \<open>All bits of a name and a bucket are set.\<close>

definition name_seeded :: "u64 list \<Rightarrow> u64 \<Rightarrow> u32 \<Rightarrow> u8 \<Rightarrow> u64 \<Rightarrow> bool" where
  "name_seeded ws h bits fns bucket \<longleftrightarrow> (\<forall>j < unat fns. bit_is_set ws (bloom_bit h bits j bucket))"

lemma name_seeded_mono: "words_le ws ws' \<Longrightarrow> name_seeded ws h bits fns b \<Longrightarrow> name_seeded ws' h bits fns b"
  using bit_is_set_mono by (auto simp: name_seeded_def)

lemma set_bits_for_seed_sets:
  "length ws = 1024 \<Longrightarrow> 0 < bits \<Longrightarrow> bits \<le> 65536 \<Longrightarrow>
     name_seeded (the_ret (zereh_bloom_set_bits_for_seed ws h bits fns b)) h bits fns b"
  by (simp add: name_seeded_def zereh_bloom_set_bits_for_seed_def set_bits_loop_sets)

lemma seed_loop_sets:
  assumes "length ws = 1024" and "0 < bits" and "bits \<le> 65536" and "s \<in> set ss" and "zereh_hash_domain s algo \<noteq> 0"
    and "b = bucket \<or> 0 < w \<and> 0 < bucket \<and> b = bucket - 1"
  shows "name_seeded (seed_loop algo bits fns w bucket ss ws) (zereh_hash_domain s algo) bits fns b"
  using assms(1,4)
proof (induction ss arbitrary: ws)
  case (Cons t ss)
  let ?h = "zereh_hash_domain t algo"
  let ?w1 = "the_ret (zereh_bloom_set_bits_for_seed ws ?h bits fns bucket)"
  let ?w2 = "if w > 0 \<and> bucket > 0 then the_ret (zereh_bloom_set_bits_for_seed ?w1 ?h bits fns (bucket - 1)) else ?w1"
  have le: "words_le ?w1 ?w2" "words_le ws ?w1" using two_buckets_le [OF Cons.prems(1) refl] by blast+
  then have len: "length ?w2 = 1024" using Cons.prems(1) by (simp add: words_le_def)
  show ?case
  proof (cases "s = t")
    case True
    have len1: "length ?w1 = 1024" using le(2) Cons.prems(1) by (simp add: words_le_def)
    have "name_seeded ?w2 ?h bits fns b"
      using assms(6) name_seeded_mono [OF le(1) set_bits_for_seed_sets [OF Cons.prems(1) assms(2,3)]]
        set_bits_for_seed_sets [OF len1 assms(2,3)] by auto
    then have "name_seeded (seed_loop algo bits fns w bucket ss ?w2) ?h bits fns b"
      using name_seeded_mono [OF seed_loop_le [OF len]] by blast
    then show ?thesis using True assms(5) by (simp add: Let_def)
  next
    case False
    then have "s \<in> set ss" using Cons.prems by simp
    then show ?thesis using Cons.IH [OF len] Cons.IH [OF Cons.prems(1)] by (simp add: Let_def)
  qed
qed simp

lemma routes_words_sets:
  assumes "length ws = 1024" and "n < length rs"
    and "\<And>ws. length ws = 1024 \<Longrightarrow> name_seeded (seed_route algo (now (i + n)) (rs ! n) ws) h bits fns b"
  shows "name_seeded (routes_words algo now i rs ws) h bits fns b"
  using assms
proof (induction rs arbitrary: i n ws)
  case (Cons r rs)
  have len: "length (seed_route algo (now i) r ws) = 1024"
    using seed_route_le [OF Cons.prems(1), of algo "now i" r] Cons.prems(1) by (simp add: words_le_def)
  show ?case
  proof (cases n)
    case 0
    then show ?thesis
      using Cons.prems(1,3) name_seeded_mono [OF routes_words_le [OF len]] by simp
  next
    case (Suc m)
    then show ?thesis
      using Cons.IH [OF len, of m "i + 1"] Cons.prems(2,3) by simp
  qed
qed simp

text \<open>The bucket that \<open>zereh_seed_bloom_map\<close> seeds for a route.\<close>

definition seeded_bucket :: "zereh_route \<Rightarrow> u64 \<Rightarrow> u64" where
  "seeded_bucket r now_sec = (if r_bloom_time_window r > 0 then now_sec div ucast (r_bloom_time_window r) else 0)"

lemma bloom_params_wf:
  assumes "route_wf r" and "r_bloom_enabled r \<noteq> 0"
  shows "zereh_route_bloom_bits r = r_bloom_size r" "zereh_route_bloom_hash_functions r = r_bloom_hash_functions r"
    "64 \<le> r_bloom_size r" "r_bloom_size r \<le> 65536" "0 < r_bloom_hash_functions r" "r_bloom_hash_functions r \<le> 8"
  using assms
  by (auto simp: route_wf_def route_limits_ok_def zereh_route_bloom_bits_def zereh_route_bloom_hash_functions_def
      Let_def not_less)

lemma bloom_words_seeded:
  assumes "config_wf cfg" and "n < length (c_routes cfg)" and "r = c_routes cfg ! n" and "r_bloom_enabled r \<noteq> 0"
    and "s \<in> set (r_bloom_seeds r)" and "zereh_hash_domain s (c_hash_algo cfg) \<noteq> 0"
    and "b = seeded_bucket r (now n) \<or>
      0 < r_bloom_time_window r \<and> 0 < seeded_bucket r (now n) \<and> b = seeded_bucket r (now n) - 1"
  shows "name_seeded (bloom_words cfg now) (zereh_hash_domain s (c_hash_algo cfg))
    (r_bloom_size r) (r_bloom_hash_functions r) b"
proof -
  have wf: "route_wf r" using assms(1-3) by (simp add: config_wf_def list_all_length)
  note p = bloom_params_wf [OF wf assms(4)]
  have gt: "0 < r_bloom_size r" using p(3) by (simp add: word_less_nat_alt word_le_nat_alt)
  have "name_seeded (seed_route (c_hash_algo cfg) (now (0 + n)) r ws) (zereh_hash_domain s (c_hash_algo cfg))
      (r_bloom_size r) (r_bloom_hash_functions r) b" if "length ws = 1024" for ws
    using seed_loop_sets [OF that gt p(4) assms(5,6,7)] assms(4) p gt
    by (auto simp: seed_route_def seeded_bucket_def Let_def)
  then show ?thesis
    unfolding bloom_words_def using routes_words_sets [of _ n "c_routes cfg"] assms(2,3) by simp
qed

text \<open>The array map \<open>pow_bloom\<close> after every word was written.\<close>

definition bloom_map_of :: "u64 list \<Rightarrow> u32 \<rightharpoonup> u64" where
  "bloom_map_of ws i = (if unat i < length ws then Some (ws ! unat i) else None)"

lemma drop_bit_and_1: "drop_bit n (x :: u64) AND 1 \<noteq> 0 \<longleftrightarrow> bit x n"
  by (simp add: and_one_eq bit_iff_odd_drop_bit mod_2_eq_odd)

lemma test_bit_iff:
  assumes "length ws = 1024" and "b < bits" and "bits \<le> 65536"
  shows "zereh_bloom_test_bit (bloom_map_of ws) b bits \<longleftrightarrow> bit_is_set ws b"
proof -
  have "unat b < 65536" using assms(2,3) by (simp add: word_less_nat_alt word_le_nat_alt)
  then have "unat (drop_bit 6 b) < 1024" by (simp add: drop_bit_eq_div unat_div)
  then show ?thesis
    using assms by (auto simp: zereh_bloom_test_bit_def bloom_map_of_def bit_is_set_def Let_def drop_bit_and_1
      word_less_nat_alt word_le_nat_alt not_le not_less)
qed

lemma length_bloom_words [simp]: "length (bloom_words cfg now) = 1024"
  using routes_words_le [of "replicate 1024 0"] by (simp add: bloom_words_def words_le_def)

lemma bucket_match_seeded:
  assumes "length ws = 1024" and "0 < bits" and "bits \<le> 65536" and "fns \<le> 8" and "name_seeded ws h bits fns b"
  shows "zereh_bloom_bucket_match (bloom_map_of ws) h bits fns b"
proof -
  have "unat fns \<le> 8" using assms(4) by (simp add: word_le_nat_alt)
  then show ?thesis
    using assms(5) test_bit_iff [OF assms(1) bloom_bit_less [OF assms(2)] assms(3)]
    by (simp add: bloom_bucket_match_iff name_seeded_def)
qed

section \<open>CIDR blocks\<close>

text \<open>The text \<open>a.b.c.d\<close> of four octets.\<close>

definition quad_text :: "nat \<Rightarrow> nat \<Rightarrow> nat \<Rightarrow> nat \<Rightarrow> string" where
  "quad_text a b c d = dec_of a @ ''.'' @ dec_of b @ ''.'' @ dec_of c @ ''.'' @ dec_of d"

lemma dec_of_1: "n < 10 \<Longrightarrow> dec_of n = [char_of (n + 48)]"
  by (subst dec_of.simps) simp
lemma dec_of_2: "10 \<le> n \<Longrightarrow> n < 100 \<Longrightarrow> dec_of n = [char_of (n div 10 + 48), char_of (n mod 10 + 48)]"
  by (subst dec_of.simps) (simp add: dec_of_1)
lemma dec_of_3: "100 \<le> n \<Longrightarrow> n < 1000 \<Longrightarrow>
    dec_of n = [char_of (n div 100 + 48), char_of (n div 10 mod 10 + 48), char_of (n mod 10 + 48)]"
  by (subst dec_of.simps) (simp add: dec_of_2 div_mult2_eq [symmetric])

lemma pton_digit:
  "d < 10 \<Longrightarrow> \<not> (saw \<and> cur = 0) \<Longrightarrow> cur * 10 + d \<le> 255 \<Longrightarrow> saw \<or> k < 4 \<Longrightarrow>
     pton_loop (char_of (d + 48 :: nat) # cs) acc cur saw k = pton_loop cs acc (cur * 10 + d) True (if saw then k else k + 1)"
  by (auto simp: c_isdigit_char_of Let_def)

lemma pton_octet:
  assumes "n \<le> 255" and "k < 4"
  shows "pton_loop (dec_of n @ cs) acc 0 False k = pton_loop cs acc n True (k + 1)"
proof -
  consider "n < 10" | "10 \<le> n" "n < 100" | "100 \<le> n" "n < 1000" using assms(1) by linarith
  then show ?thesis
  proof cases
    case 1
    then show ?thesis using pton_digit [of n False 0] assms by (simp add: dec_of_1)
  next
    case 2
    then have "n div 10 \<noteq> 0" "n div 10 < 10" by auto
    then show ?thesis using pton_digit [of "n div 10" False 0] pton_digit [of "n mod 10" True "n div 10"] assms 2
      by (simp add: dec_of_2 mult.commute)
  next
    case 3
    have d: "n div 100 \<noteq> 0" "n div 100 < 10" using 3 by auto
    have e: "n div 100 * 10 + n div 10 mod 10 = n div 10"
      using mult_div_mod_eq [of 10 "n div 10"] by (simp add: div_mult2_eq [symmetric] mult.commute)
    have "n div 10 \<le> 25" using assms(1) by simp
    then show ?thesis
      using pton_digit [of "n div 100" False 0] pton_digit [of "n div 10 mod 10" True "n div 100"]
        pton_digit [of "n mod 10" True "n div 10"] assms 3 d e
      by (simp add: dec_of_3 mult.commute)
  qed
qed

lemma inet_pton4_quad:
  assumes "a \<le> 255" "b \<le> 255" "c \<le> 255" "d \<le> 255"
  shows "inet_pton4 (quad_text a b c d) = Some [a, b, c, d]"
  using assms pton_octet [of d _ "[]"]
  by (simp add: inet_pton4_def quad_text_def pton_octet c_isdigit_def)

lemma strtol10_dec: "strtol10 (dec_of n) = (min (2 ^ 63 - 1) (int n), [])"
proof -
  obtain c r where ds: "dec_of n = c # r" and c: "c_isdigit c"
    using dec_of_digits dec_of_nonempty [of n] by (cases "dec_of n") (auto, metis list.set_intros(1))
  have sp: "dropWhile c_isspace (dec_of n) = dec_of n" using ds digit_not_space [OF c] by simp
  have tw: "takeWhile c_isdigit (dec_of n) = dec_of n" "dropWhile c_isdigit (dec_of n) = []"
    using dec_of_digits by auto
  have "strto_sign (dec_of n) = (False, dec_of n)" using strto_sign_digit [OF c, of r] ds by simp
  then show ?thesis using sp by (simp add: strtol10_def Let_def tw digits_val_dec_of)
qed

text \<open>A number cut off after some digits is a number of that many digits.\<close>

lemma take_dec_of: "0 < k \<Longrightarrow> k \<le> length (dec_of n) \<Longrightarrow> \<exists>m. take k (dec_of n) = dec_of m"
proof (induction n rule: dec_of.induct)
  case (1 n)
  show ?case
  proof (cases "k = length (dec_of n)")
    case False
    then have k: "k < length (dec_of n)" using 1 by simp
    then have "\<not> n < 10" using 1 dec_of_1 [of n] by auto
    moreover then have d: "dec_of n = dec_of (n div 10) @ [char_of (n mod 10 + 48)]" by (subst dec_of.simps) simp
    ultimately show ?thesis using 1 k by simp
  qed auto
qed

lemma slash_not_digit: "CHR ''/'' \<notin> set (dec_of n)"
  using dec_of_digits by (fastforce simp: c_isdigit_def)

lemma slash_not_in_quad: "CHR ''/'' \<notin> set (quad_text a b c d)"
  by (simp add: quad_text_def slash_not_digit)

lemma length_dec_of_le: "n < 1000 \<Longrightarrow> length (dec_of n) \<le> 3"
  by (cases "n < 10"; cases "n < 100") (simp_all add: dec_of_1 dec_of_2 dec_of_3)

lemma parse_cidr_print:
  assumes "a \<le> 255" "b \<le> 255" "c \<le> 255" "d \<le> 255"
  shows "zereh_parse_cidr_v4 (quad_text a b c d) = Some \<lparr>k_prefixlen = 32, k_addr = s_addr [a, b, c, d]\<rparr>"
    and "zereh_parse_cidr_v4 (quad_text a b c d @ ''/'' @ dec_of p) =
      (if p \<le> 32 then Some \<lparr>k_prefixlen = of_nat p, k_addr = s_addr [a, b, c, d]\<rparr> else None)"
proof -
  have len: "length (quad_text a b c d) \<le> 15"
    using assms length_dec_of_le [of a] length_dec_of_le [of b] length_dec_of_le [of c] length_dec_of_le [of d]
    by (simp add: quad_text_def)
  have tw: "takeWhile (\<lambda>ch. ch \<noteq> CHR ''/'') (quad_text a b c d) = quad_text a b c d"
    using slash_not_in_quad [of a b c d] by (simp add: takeWhile_eq_all_conv) metis
  show "zereh_parse_cidr_v4 (quad_text a b c d) = Some \<lparr>k_prefixlen = 32, k_addr = s_addr [a, b, c, d]\<rparr>"
    using len slash_not_in_quad [of a b c d]
    by (simp add: zereh_parse_cidr_v4_def snprintf_s_fits Let_def tw inet_pton4_quad [OF assms])
  have tw2: "takeWhile (\<lambda>ch. ch \<noteq> CHR ''/'') (quad_text a b c d @ CHR ''/'' # u) = quad_text a b c d"
    "dropWhile (\<lambda>ch. ch \<noteq> CHR ''/'') (quad_text a b c d @ CHR ''/'' # u) = CHR ''/'' # u" for u
    using slash_not_in_quad [of a b c d] by (auto simp: takeWhile_append dropWhile_append dest: set_dropWhileD)
  let ?s = "quad_text a b c d @ CHR ''/'' # dec_of p"
  obtain m where m: "snprintf_s 64 ?s = quad_text a b c d @ CHR ''/'' # dec_of m" and same: "m = p \<or> 32 < m \<and> 32 < p"
  proof (cases "length ?s < 64")
    case False
    define k where "k = 62 - length (quad_text a b c d)"
    have k: "3 < k" "k \<le> length (dec_of p)" using False len by (auto simp: k_def)
    then obtain m where m: "take k (dec_of p) = dec_of m" using take_dec_of [of k p] by auto
    then have "length (dec_of m) = k" using k by (metis length_take min.absorb2)
    then have "\<not> m < 1000" "\<not> p < 1000" using k length_dec_of_le [of m] length_dec_of_le [of p] by auto
    moreover have "snprintf_s 64 ?s = quad_text a b c d @ CHR ''/'' # dec_of m"
      using m len by (simp add: snprintf_s_def k_def take_Cons' Suc_diff_le)
    ultimately show thesis using that by simp
  qed (use that [of p] in \<open>simp add: snprintf_s_fits\<close>)
  have "zereh_parse_cidr_v4 ?s = (if m \<le> 32 then Some \<lparr>k_prefixlen = of_nat m, k_addr = s_addr [a, b, c, d]\<rparr> else None)"
    using strtol10_dec [of m] not_sym [OF dec_of_nonempty [of m]]
    by (auto simp: zereh_parse_cidr_v4_def m Let_def tw2 inet_pton4_quad [OF assms])
  then have "zereh_parse_cidr_v4 ?s = (if p \<le> 32 then Some \<lparr>k_prefixlen = of_nat p, k_addr = s_addr [a, b, c, d]\<rparr> else None)"
    using same by auto
  then show "zereh_parse_cidr_v4 (quad_text a b c d @ ''/'' @ dec_of p) =
      (if p \<le> 32 then Some \<lparr>k_prefixlen = of_nat p, k_addr = s_addr [a, b, c, d]\<rparr> else None)" by simp
qed

text \<open>
  The block an LPM key stands for: the addresses that agree with it in the first
  \<open>prefixlen\<close> bits, counted from the most significant bit of the first octet.
\<close>

definition addr_bit :: "u32 \<Rightarrow> nat \<Rightarrow> bool" where
  "addr_bit a i = bit a (8 * (i div 8) + (7 - i mod 8))"

definition lpm_covers :: "lpm_v4_key \<Rightarrow> u32 \<Rightarrow> bool" where
  "lpm_covers key addr \<longleftrightarrow> (\<forall>i < unat (k_prefixlen key). addr_bit (k_addr key) i = addr_bit addr i)"

section \<open>Properties\<close>

text \<open>
  (C24) CIDR round trip: the text of four octets parses to a host key, the text with a
  prefix length, however large, parses to the key with that length if it is at most 32 and
  is refused otherwise, also where the number exceeds a \<open>long\<close> or the text the buffer.
\<close>

theorem cidr_roundtrip:
  assumes "a \<le> 255" "b \<le> 255" "c \<le> 255" "d \<le> 255"
  shows "zereh_parse_cidr_v4 (quad_text a b c d) = Some \<lparr>k_prefixlen = 32, k_addr = s_addr [a, b, c, d]\<rparr> \<and>
    zereh_parse_cidr_v4 (quad_text a b c d @ ''/'' @ dec_of p) =
      (if p \<le> 32 then Some \<lparr>k_prefixlen = of_nat p, k_addr = s_addr [a, b, c, d]\<rparr> else None)"
  using parse_cidr_print [OF assms] by simp

theorem cidr_roundtrip_witness:
  "zereh_parse_cidr_v4 (quad_text 10 0 0 0 @ ''/'' @ dec_of 8) = Some \<lparr>k_prefixlen = 8, k_addr = 10\<rparr> \<and>
   zereh_parse_cidr_v4 (quad_text 10 0 0 0 @ ''/'' @ dec_of 33) = None \<and>
   zereh_parse_cidr_v4 (quad_text 10 0 0 0 @ ''/'' @ dec_of 4294967304) = None"
  using cidr_roundtrip [of 10 0 0 0 8] cidr_roundtrip [of 10 0 0 0 33] cidr_roundtrip [of 10 0 0 0 4294967304]
  by (simp add: s_addr_def)

text \<open>
  (C23) The Bloom filter has no false negatives from one plane to the other: every seed name of
  an accepted configuration with a non-zero hash passes the data plane's filter on the words
  the loader computes, whatever the other routes have seeded, at every time if the route has
  no time window, and otherwise whenever the bucket of the data plane's clock is at most one
  away from the bucket of the time at which the loader seeded the route. (The loader reads the
  time since the epoch and the data plane the time since boot, so that with a window the second
  condition fails in practice.)
\<close>

theorem bloom_no_false_negatives:
  assumes "config_wf cfg" and "n < length (c_routes cfg)" and "r = c_routes cfg ! n" and "r_bloom_enabled r \<noteq> 0"
    and "s \<in> set (r_bloom_seeds r)" and "zereh_hash_domain s (c_hash_algo cfg) \<noteq> 0"
    and "seeded = unat (now n) div unat (r_bloom_time_window r)"
    and "current = unat now_ns div 1000000000 div unat (r_bloom_time_window r)"
    and "r_bloom_time_window r = 0 \<or> current \<le> seeded + 1 \<and> seeded \<le> current + 1"
  shows "zereh_bloom_allow (bloom_map_of (bloom_words cfg now)) now_ns (zereh_hash_domain s (c_hash_algo cfg))
    (r_bloom_size r) (r_bloom_hash_functions r) (r_bloom_time_window r)"
proof -
  let ?ws = "bloom_map_of (bloom_words cfg now)" and ?h = "zereh_hash_domain s (c_hash_algo cfg)"
  let ?b = "seeded_bucket r (now n)"
  have wf: "route_wf r" using assms(1-3) by (simp add: config_wf_def list_all_length)
  note p = bloom_params_wf [OF wf assms(4)]
  have gt: "0 < r_bloom_size r" using p(3) by (simp add: word_less_nat_alt word_le_nat_alt)
  have ok: "bloom_token_ok ?ws ?h (r_bloom_size r) (r_bloom_hash_functions r) b"
    if "b = ?b \<or> 0 < r_bloom_time_window r \<and> 0 < ?b \<and> b = ?b - 1" for b
    using bucket_match_seeded [OF length_bloom_words gt p(4,6) bloom_words_seeded [where now = now, OF assms(1-6) that]] p
    by (auto simp: bloom_token_ok_def)
  show ?thesis
  proof (cases "r_bloom_time_window r = 0")
    case True
    then show ?thesis using bloom_token.allow_no_window ok [of 0] by (simp add: seeded_bucket_def)
  next
    case False
    then have w: "0 < r_bloom_time_window r" by (simp add: word_gt_0)
    have b: "unat ?b = seeded" using w assms(7) by (simp add: seeded_bucket_def unat_div)
    have "\<exists>b. bloom_token_ok ?ws ?h (r_bloom_size r) (r_bloom_hash_functions r) b \<and> unat b \<le> current \<and> current \<le> unat b + 1"
    proof (cases "current < seeded")
      case True
      then have "0 < ?b" using b by (simp add: word_less_nat_alt)
      moreover then have "unat (?b - 1) = seeded - 1" using b unat_minus_one [of ?b] by (simp add: word_gt_0)
      ultimately show ?thesis using ok [of "?b - 1"] w assms(9) True False by (intro exI [of _ "?b - 1"]) auto
    next
      case False
      then show ?thesis using ok [of ?b] b assms(9) w by (intro exI [of _ ?b]) auto
    qed
    then show ?thesis using bloom_token.allow_iff_bucket [OF False] assms(8) by simp
  qed
qed

text \<open>A configuration with one Bloom-filtered route with a window of 60 seconds.\<close>

definition sample_bloom_route :: zereh_route where
  "sample_bloom_route = sample_route\<lparr>r_bloom_enabled := 1, r_bloom_size := 1024, r_bloom_hash_functions := 3,
     r_bloom_time_window := 60, r_bloom_seeds := [''ab.c'']\<rparr>"

definition sample_bloom_config :: zereh_config where
  "sample_bloom_config = zereh_config_init_defaults\<lparr>c_routes := [sample_bloom_route]\<rparr>"

lemma sample_bloom_config_wf: "config_wf sample_bloom_config"
  using init_defaults_buffers_ok
  by (simp add: sample_bloom_config_def sample_bloom_route_def sample_route_def config_wf_def config_buffers_ok_def
      route_wf_def route_buffers_ok_def route_limits_ok_def fits_def)

theorem bloom_no_false_negatives_witness:
  "zereh_bloom_allow (bloom_map_of (bloom_words sample_bloom_config (\<lambda>i. 125))) 61000000000
     (zereh_hash_domain ''ab.c'' ZEREH_HASH_FNV1A) 1024 3 60"
proof -
  have h: "zereh_hash_domain ''ab.c'' ZEREH_HASH_FNV1A \<noteq> 0"
    by (simp add: zereh_hash_domain_def zereh_fnv1a64_domain_def zereh_normalize_domain_def c_tolower_def
        bytes_of_def byte_of_def zereh_fnv1a64_bytes_def ZEREH_FNV1A64_OFFSET_def ZEREH_FNV1A64_PRIME_def)
  show ?thesis
    using bloom_no_false_negatives [OF sample_bloom_config_wf, of 0 sample_bloom_route "''ab.c''" 2 "\<lambda>i. 125" 1 61000000000] h
    by (simp add: sample_bloom_config_def sample_bloom_route_def sample_route_def zereh_config_init_defaults_def)
qed

end
