(* ===== verification/Zereh_Loader.thy ===== *)
theory Zereh_Loader
  imports Zereh_Seed "HOL-Library.State_Monad"
begin

text \<open>
  The loader proper (\<open>control/loader.c\<close>): seeding the maps, attaching the program with its
  fallbacks, the swap \<open>zereh_load_and_swap_xdp\<close> and \<open>zereh_detach_xdp\<close>.

  The kernel, libbpf and the C library's system calls are the record \<open>libbpf\<close>. The state
  is the list of the calls made so far, in order; the result of a call may depend on it
  (\<open>lb_result\<close>), so nothing is assumed about which calls succeed. A function that returns
  0 or -1 returns a \<open>bool\<close>. Log messages are not part of the state.

  \<open>runs m Q\<close> is the contract of such a function: from every history \<open>l\<close> it returns some
  \<open>r\<close> after appending some calls \<open>ext\<close> with \<open>Q l r ext\<close>.
\<close>

section \<open>Definitions\<close>

subsection \<open>System calls\<close>

datatype bpf_call =
    If_nametoindex string
  | Setrlimit_memlock
  | Set_strict_mode
  | Object_open string
  | Object_load
  | Object_close
  | Map_update_lpm int lpm_v4_key u8
  | Map_update_u64 int u32 u64
  | Map_update_fd int u32 int
  | Stat_path string
  | Make_dir string
  | Xdp_query_id int u32
  | Prog_get_fd_by_id u32
  | Xdp_attach int int u32 int
  | Xdp_detach int u32
  | Obj_get string
  | Link_update int int
  | Program_attach_xdp nat int
  | Link_pin string
  | Link_destroy
  | Unlink_path string
  | Close_fd int

text \<open>
  \<open>lb_errno\<close>, \<open>lb_old_prog_id\<close> and \<open>lb_is_dir\<close> are what the call at the end of the history
  left in \<open>errno\<close>, in \<open>*prog_id\<close> and in the \<open>stat\<close> buffer.
\<close>

record libbpf =
  lb_result :: "bpf_call list \<Rightarrow> bpf_call \<Rightarrow> int"
  lb_errno :: "bpf_call list \<Rightarrow> int"
  lb_old_prog_id :: "bpf_call list \<Rightarrow> u32"
  lb_is_dir :: "bpf_call list \<Rightarrow> bool"
  lb_find_map :: "string \<Rightarrow> int option"
  lb_find_program :: "string \<Rightarrow> nat option"
  lb_program_fd :: "nat \<Rightarrow> int"
  lb_time :: "nat \<Rightarrow> u64"

type_synonym 'a io = "(bpf_call list, 'a) state"

definition sys :: "libbpf \<Rightarrow> bpf_call \<Rightarrow> int io" where
  "sys lb c = State (\<lambda>l. (lb_result lb l c, l @ [c]))"

definition after_call :: "(bpf_call list \<Rightarrow> 'a) \<Rightarrow> 'a io" where
  "after_call f = State (\<lambda>l. (f l, l))"

abbreviation (input) "ENOENT \<equiv> (2 :: int)"
abbreviation (input) "EEXIST \<equiv> (17 :: int)"
abbreviation (input) "EINVAL \<equiv> (22 :: int)"
abbreviation (input) "EOPNOTSUPP \<equiv> (95 :: int)"
abbreviation (input) "XDP_FLAGS_SKB_MODE \<equiv> (2 :: u32)"
abbreviation (input) "XDP_FLAGS_DRV_MODE \<equiv> (4 :: u32)"
abbreviation (input) "XDP_FLAGS_HW_MODE \<equiv> (8 :: u32)"
abbreviation (input) "ZEREH_PROG_ARRAY_MAX \<equiv> (64 :: u32)"

subsection \<open>Environment\<close>

definition zereh_raise_memlock :: "libbpf \<Rightarrow> bool io" where
  "zereh_raise_memlock lb = do { r \<leftarrow> sys lb Setrlimit_memlock; State_Monad.return (r = 0) }"

definition zereh_ensure_dir :: "libbpf \<Rightarrow> string \<Rightarrow> bool io" where
  "zereh_ensure_dir lb path = do {
     st \<leftarrow> sys lb (Stat_path path);
     if st = 0 then after_call (lb_is_dir lb)
     else do {
       r \<leftarrow> sys lb (Make_dir path);
       e \<leftarrow> after_call (lb_errno lb);
       State_Monad.return (\<not> (r \<noteq> 0 \<and> e \<noteq> EEXIST)) } }"

subsection \<open>Seeding\<close>

fun zereh_seed_blacklist_map :: "libbpf \<Rightarrow> int \<Rightarrow> string list \<Rightarrow> bool io" where
  "zereh_seed_blacklist_map lb map_fd [] = State_Monad.return True"
| "zereh_seed_blacklist_map lb map_fd (cidr # cidrs) = (case zereh_parse_cidr_v4 cidr of
     None \<Rightarrow> State_Monad.return False
   | Some key \<Rightarrow> do {
       r \<leftarrow> sys lb (Map_update_lpm map_fd key 1);
       if r \<noteq> 0 then State_Monad.return False else zereh_seed_blacklist_map lb map_fd cidrs })"

fun write_words :: "libbpf \<Rightarrow> int \<Rightarrow> nat \<Rightarrow> u64 list \<Rightarrow> bool io" where
  "write_words lb map_fd i [] = State_Monad.return True"
| "write_words lb map_fd i (w # ws) = do {
     r \<leftarrow> sys lb (Map_update_u64 map_fd (of_nat i) w);
     if r \<noteq> 0 then State_Monad.return False else write_words lb map_fd (i + 1) ws }"

definition zereh_seed_bloom_map :: "libbpf \<Rightarrow> int \<Rightarrow> zereh_config \<Rightarrow> bool io" where
  "zereh_seed_bloom_map lb map_fd cfg = write_words lb map_fd 0 (bloom_words cfg (lb_time lb))"

text \<open>The program and \<open>resolved_name\<close>.\<close>

definition zereh_resolve_tail_program :: "libbpf \<Rightarrow> zereh_route \<Rightarrow> nat option \<Rightarrow> (nat \<times> string) option" where
  "zereh_resolve_tail_program lb route default_tail = (
     if r_prog_name route \<noteq> [] then
       (case lb_find_program lb (r_prog_name route) of None \<Rightarrow> None
        | Some p \<Rightarrow> Some (p, snprintf_s ZEREH_MAX_PROG_NAME (r_prog_name route)))
     else
       let indexed_name = snprintf_s ZEREH_MAX_PROG_NAME (''zereh_app_'' @ dec_of (unat (r_prog_index route))) in
       case lb_find_program lb indexed_name of
         Some p \<Rightarrow> Some (p, snprintf_s ZEREH_MAX_PROG_NAME indexed_name)
       | None \<Rightarrow> (case default_tail of None \<Rightarrow> None
           | Some p \<Rightarrow> Some (p, snprintf_s ZEREH_MAX_PROG_NAME ''zereh_app_default'')))"

fun prog_array_loop :: "libbpf \<Rightarrow> int \<Rightarrow> nat option \<Rightarrow> zereh_route list \<Rightarrow> bool io" where
  "prog_array_loop lb map_fd default_tail [] = State_Monad.return True"
| "prog_array_loop lb map_fd default_tail (route # rs) =
     (if r_target route \<noteq> ZEREH_TARGET_XDP_PROG then prog_array_loop lb map_fd default_tail rs
      else if r_prog_index route \<ge> ZEREH_PROG_ARRAY_MAX then State_Monad.return False
      else case zereh_resolve_tail_program lb route default_tail of
        None \<Rightarrow> State_Monad.return False
      | Some (tail_prog, resolved_name) \<Rightarrow>
          if lb_program_fd lb tail_prog < 0 then State_Monad.return False
          else do {
            r \<leftarrow> sys lb (Map_update_fd map_fd (r_prog_index route) (lb_program_fd lb tail_prog));
            if r \<noteq> 0 then State_Monad.return False else prog_array_loop lb map_fd default_tail rs })"

definition zereh_seed_prog_array :: "libbpf \<Rightarrow> int \<Rightarrow> zereh_config \<Rightarrow> bool io" where
  "zereh_seed_prog_array lb map_fd cfg =
     prog_array_loop lb map_fd (lb_find_program lb ''zereh_app_default'') (c_routes cfg)"

subsection \<open>Attaching\<close>

definition zereh_xdp_mode_to_flags :: "zereh_xdp_mode \<Rightarrow> u32" where
  "zereh_xdp_mode_to_flags mode = (case mode of
     ZEREH_XDP_MODE_SKB \<Rightarrow> XDP_FLAGS_SKB_MODE
   | ZEREH_XDP_MODE_OFFLOAD \<Rightarrow> XDP_FLAGS_HW_MODE
   | ZEREH_XDP_MODE_NATIVE \<Rightarrow> XDP_FLAGS_DRV_MODE)"

definition zereh_xdp_mode_name :: "zereh_xdp_mode \<Rightarrow> string" where
  "zereh_xdp_mode_name mode = (case mode of
     ZEREH_XDP_MODE_SKB \<Rightarrow> ''skb'' | ZEREH_XDP_MODE_OFFLOAD \<Rightarrow> ''offload'' | ZEREH_XDP_MODE_NATIVE \<Rightarrow> ''native'')"

text \<open>\<open>opts.old_prog_fd\<close> stays 0 unless an old program's descriptor was obtained.\<close>

definition zereh_attach_xdp_replace :: "libbpf \<Rightarrow> int \<Rightarrow> int \<Rightarrow> zereh_xdp_mode \<Rightarrow> bool io" where
  "zereh_attach_xdp_replace lb ifindex prog_fd mode = (
     let flags = zereh_xdp_mode_to_flags mode in do {
     q \<leftarrow> sys lb (Xdp_query_id ifindex flags);
     old_prog_id \<leftarrow> after_call (lb_old_prog_id lb);
     old_prog_fd \<leftarrow> (if q = 0 \<and> old_prog_id > 0 then sys lb (Prog_get_fd_by_id old_prog_id)
                     else State_Monad.return (- 1));
     r \<leftarrow> sys lb (Xdp_attach ifindex prog_fd flags (if old_prog_fd \<ge> 0 then old_prog_fd else 0));
     if r \<noteq> 0 then do {
       _ \<leftarrow> (if old_prog_fd \<ge> 0 then sys lb (Close_fd old_prog_fd) else State_Monad.return 0);
       State_Monad.return False }
     else do {
       _ \<leftarrow> (if old_prog_fd \<ge> 0 then sys lb (Close_fd old_prog_fd) else State_Monad.return 0);
       State_Monad.return True } })"

definition zereh_attach_or_update_link :: "libbpf \<Rightarrow> nat \<Rightarrow> int \<Rightarrow> string \<Rightarrow> zereh_xdp_mode \<Rightarrow> bool io" where
  "zereh_attach_or_update_link lb prog ifindex pin_path mode = (
     if mode \<noteq> ZEREH_XDP_MODE_NATIVE then zereh_attach_xdp_replace lb ifindex (lb_program_fd lb prog) mode
     else do {
       old_link_fd \<leftarrow> sys lb (Obj_get pin_path);
       errno \<leftarrow> after_call (lb_errno lb);
       if old_link_fd \<ge> 0 then do {
         r \<leftarrow> sys lb (Link_update old_link_fd (lb_program_fd lb prog));
         if r \<noteq> 0 then do { _ \<leftarrow> sys lb (Close_fd old_link_fd); State_Monad.return False }
         else do { _ \<leftarrow> sys lb (Close_fd old_link_fd); State_Monad.return True } }
       else if errno \<noteq> ENOENT then State_Monad.return False
       else do {
         link_error \<leftarrow> sys lb (Program_attach_xdp prog ifindex);
         if link_error \<noteq> 0 then State_Monad.return False
         else do {
           r \<leftarrow> sys lb (Link_pin pin_path);
           if r \<noteq> 0 then do { _ \<leftarrow> sys lb Link_destroy; State_Monad.return False }
           else do { _ \<leftarrow> sys lb Link_destroy; State_Monad.return True } } } })"

text \<open>The effective mode, or \<open>None\<close> for -1.\<close>

definition zereh_attach_with_fallback ::
  "libbpf \<Rightarrow> nat \<Rightarrow> int \<Rightarrow> string \<Rightarrow> zereh_xdp_mode \<Rightarrow> zereh_xdp_mode option io" where
  "zereh_attach_with_fallback lb prog ifindex pin_path requested_mode = do {
     ok \<leftarrow> zereh_attach_or_update_link lb prog ifindex pin_path requested_mode;
     if ok then State_Monad.return (Some requested_mode)
     else if requested_mode = ZEREH_XDP_MODE_OFFLOAD then do {
       ok \<leftarrow> zereh_attach_or_update_link lb prog ifindex pin_path ZEREH_XDP_MODE_NATIVE;
       if ok then State_Monad.return (Some ZEREH_XDP_MODE_NATIVE)
       else do {
         ok \<leftarrow> zereh_attach_or_update_link lb prog ifindex pin_path ZEREH_XDP_MODE_SKB;
         if ok then State_Monad.return (Some ZEREH_XDP_MODE_SKB) else State_Monad.return None } }
     else if requested_mode = ZEREH_XDP_MODE_NATIVE then do {
       ok \<leftarrow> zereh_attach_or_update_link lb prog ifindex pin_path ZEREH_XDP_MODE_SKB;
       if ok then State_Monad.return (Some ZEREH_XDP_MODE_SKB) else State_Monad.return None }
     else State_Monad.return None }"

subsection \<open>Entry points\<close>

text \<open>\<open>if (map && seed (bpf_map__fd (map), ...) != 0) goto out;\<close>\<close>

definition seed_map :: "libbpf \<Rightarrow> string \<Rightarrow> (int \<Rightarrow> bool io) \<Rightarrow> bool io" where
  "seed_map lb name seed = (case lb_find_map lb name of None \<Rightarrow> State_Monad.return True | Some fd \<Rightarrow> seed fd)"

definition zereh_seed_maps :: "libbpf \<Rightarrow> zereh_config \<Rightarrow> bool io" where
  "zereh_seed_maps lb cfg = do {
     ok \<leftarrow> seed_map lb ''ip_blacklist'' (\<lambda>fd. zereh_seed_blacklist_map lb fd (c_blacklist cfg));
     if \<not> ok then State_Monad.return False else do {
     ok \<leftarrow> seed_map lb ''pow_bloom'' (\<lambda>fd. zereh_seed_bloom_map lb fd cfg);
     if \<not> ok then State_Monad.return False else
     seed_map lb ''prog_array'' (\<lambda>fd. zereh_seed_prog_array lb fd cfg) } }"

text \<open>From the loaded object to the label \<open>out\<close>.\<close>

definition swap_object :: "libbpf \<Rightarrow> zereh_config \<Rightarrow> string \<Rightarrow> int \<Rightarrow> bool io" where
  "swap_object lb cfg ifname ifindex = do {
     r \<leftarrow> sys lb Object_load;
     if r \<noteq> 0 then State_Monad.return False else do {
     ok \<leftarrow> zereh_seed_maps lb cfg;
     if \<not> ok then State_Monad.return False else
     case lb_find_program lb (c_xdp_section cfg) of None \<Rightarrow> State_Monad.return False
     | Some prog \<Rightarrow> do {
       ok \<leftarrow> zereh_ensure_dir lb ''/sys/fs/bpf/zereh'';
       if \<not> ok then State_Monad.return False else
       case zereh_build_pin_path PATH_MAX ifname of
         Ret pin_path \<Rightarrow> do {
           effective_mode \<leftarrow> zereh_attach_with_fallback lb prog ifindex pin_path (c_xdp_mode cfg);
           State_Monad.return (effective_mode \<noteq> None) }
       | _ \<Rightarrow> State_Monad.return False } } }"

definition interface_of :: "zereh_config \<Rightarrow> string option \<Rightarrow> string" where
  "interface_of cfg ifname_override = (case ifname_override of
     Some n \<Rightarrow> if n \<noteq> [] then n else c_interface cfg | None \<Rightarrow> c_interface cfg)"

definition zereh_load_and_swap_xdp :: "libbpf \<Rightarrow> zereh_config \<Rightarrow> string option \<Rightarrow> bool io" where
  "zereh_load_and_swap_xdp lb cfg ifname_override = (
     let ifname = interface_of cfg ifname_override in do {
     ifindex \<leftarrow> sys lb (If_nametoindex ifname);
     if ifindex = 0 then State_Monad.return False else do {
     ok \<leftarrow> zereh_raise_memlock lb;
     if \<not> ok then State_Monad.return False else do {
     _ \<leftarrow> sys lb Set_strict_mode;
     err \<leftarrow> sys lb (Object_open (c_generated_object cfg));
     if err \<noteq> 0 then State_Monad.return False else do {
     rc \<leftarrow> swap_object lb cfg ifname ifindex;
     _ \<leftarrow> sys lb Object_close;
     State_Monad.return rc } } } })"

text \<open>Success, and whether something was detached.\<close>

definition zereh_detach_mode :: "libbpf \<Rightarrow> int \<Rightarrow> u32 \<Rightarrow> bool \<Rightarrow> (bool \<times> bool) io" where
  "zereh_detach_mode lb ifindex flags detached_any = do {
     r \<leftarrow> sys lb (Xdp_detach ifindex flags);
     e \<leftarrow> after_call (lb_errno lb);
     if r = 0 then State_Monad.return (True, True)
     else if e = ENOENT \<or> e = EINVAL \<or> e = EOPNOTSUPP then State_Monad.return (True, detached_any)
     else State_Monad.return (False, detached_any) }"

definition zereh_detach_xdp :: "libbpf \<Rightarrow> zereh_config \<Rightarrow> string option \<Rightarrow> bool io" where
  "zereh_detach_xdp lb cfg ifname_override = (
     let ifname = interface_of cfg ifname_override in do {
     ifindex \<leftarrow> sys lb (If_nametoindex ifname);
     if ifindex = 0 then State_Monad.return False else
     case zereh_build_pin_path PATH_MAX ifname of
       Ret pin_path \<Rightarrow> do {
       link_fd \<leftarrow> sys lb (Obj_get pin_path);
       unlinked \<leftarrow> (if link_fd \<ge> 0 then do {
           _ \<leftarrow> sys lb (Close_fd link_fd);
           r \<leftarrow> sys lb (Unlink_path pin_path);
           e \<leftarrow> after_call (lb_errno lb);
           State_Monad.return (\<not> (r \<noteq> 0 \<and> e \<noteq> ENOENT)) }
         else State_Monad.return True);
       if \<not> unlinked then State_Monad.return False else do {
       (ok, d) \<leftarrow> zereh_detach_mode lb ifindex XDP_FLAGS_DRV_MODE False;
       if \<not> ok then State_Monad.return False else do {
       (ok, d) \<leftarrow> zereh_detach_mode lb ifindex XDP_FLAGS_HW_MODE d;
       if \<not> ok then State_Monad.return False else do {
       (ok, d) \<leftarrow> zereh_detach_mode lb ifindex XDP_FLAGS_SKB_MODE d;
       State_Monad.return ok } } } }
     | _ \<Rightarrow> State_Monad.return False })"

section \<open>Contracts\<close>

definition runs :: "('c list, 'a) state \<Rightarrow> ('c list \<Rightarrow> 'a \<Rightarrow> 'c list \<Rightarrow> bool) \<Rightarrow> bool" where
  "runs m Q \<longleftrightarrow> (\<forall>l. \<exists>r ext. run_state m l = (r, l @ ext) \<and> Q l r ext)"

lemma runsI: "(\<And>l. \<exists>r ext. run_state m l = (r, l @ ext) \<and> Q l r ext) \<Longrightarrow> runs m Q"
  by (simp add: runs_def)

lemma runsD: "runs m Q \<Longrightarrow> run_state m l = (r, l') \<Longrightarrow> \<exists>ext. l' = l @ ext \<and> Q l r ext"
  unfolding runs_def by (metis prod.inject)

lemma runs_weaken: "runs m P \<Longrightarrow> (\<And>l r ext. P l r ext \<Longrightarrow> Q l r ext) \<Longrightarrow> runs m Q"
  unfolding runs_def by meson

lemma runs_return: "(\<And>l. Q l x []) \<Longrightarrow> runs (State_Monad.return x) Q"
  by (simp add: runs_def)

lemma runs_sys: "(\<And>l. Q l (lb_result lb l c) [c]) \<Longrightarrow> runs (sys lb c) Q"
  by (simp add: runs_def sys_def)

lemma runs_after: "(\<And>l. Q l (f l) []) \<Longrightarrow> runs (after_call f) Q"
  by (simp add: runs_def after_call_def)

lemma runs_bind:
  assumes "runs m P" and "\<And>r. runs (f r) (P' r)"
    and "\<And>l r ext r' ext'. P l r ext \<Longrightarrow> P' r (l @ ext) r' ext' \<Longrightarrow> Q l r' (ext @ ext')"
  shows "runs (State_Monad.bind m f) Q"
proof (rule runsI)
  fix l
  obtain r ext where m: "run_state m l = (r, l @ ext)" "P l r ext" using assms(1) unfolding runs_def by blast
  obtain r' ext' where f: "run_state (f r) (l @ ext) = (r', (l @ ext) @ ext')" "P' r (l @ ext) r' ext'"
    using assms(2) [of r] unfolding runs_def by blast
  show "\<exists>r ext. run_state (State_Monad.bind m f) l = (r, l @ ext) \<and> Q l r ext"
    using m f assms(3) by (intro exI [of _ r'] exI [of _ "ext @ ext'"]) simp
qed

text \<open>A first call, then the rest.\<close>

lemma runs_sys_bind:
  assumes "\<And>r. runs (f r) (P' r)"
    and "\<And>l r' ext'. P' (lb_result lb l c) (l @ [c]) r' ext' \<Longrightarrow> Q l r' (c # ext')"
  shows "runs (State_Monad.bind (sys lb c) f) Q"
  by (rule runs_bind [where P = "\<lambda>l r ext. r = lb_result lb l c \<and> ext = [c]", OF runs_sys assms(1)]) (auto intro: assms(2))

subsection \<open>What is counted\<close>

fun is_update :: "bpf_call \<Rightarrow> bool" where
  "is_update (Map_update_lpm fd k v) = True"
| "is_update (Map_update_u64 fd k v) = True"
| "is_update (Map_update_fd fd k v) = True"
| "is_update c = False"

fun is_attach :: "bpf_call \<Rightarrow> bool" where
  "is_attach (Xdp_attach i p f old) = True"
| "is_attach (Link_update l p) = True"
| "is_attach (Program_attach_xdp p i) = True"
| "is_attach c = False"

text \<open>All calls that satisfy \<open>P\<close> returned 0, from history \<open>l\<close> on.\<close>

fun all_ok :: "libbpf \<Rightarrow> (bpf_call \<Rightarrow> bool) \<Rightarrow> bpf_call list \<Rightarrow> bpf_call list \<Rightarrow> bool" where
  "all_ok lb P l [] = True"
| "all_ok lb P l (c # cs) = ((P c \<longrightarrow> lb_result lb l c = 0) \<and> all_ok lb P (l @ [c]) cs)"

lemma all_ok_append: "all_ok lb P l (xs @ ys) \<longleftrightarrow> all_ok lb P l xs \<and> all_ok lb P (l @ xs) ys"
  by (induction xs arbitrary: l) auto

lemma all_ok_none: "(\<And>c. c \<in> set cs \<Longrightarrow> \<not> P c) \<Longrightarrow> all_ok lb P l cs"
  by (induction cs arbitrary: l) auto

section \<open>Seeding\<close>

text \<open>The updates a configuration calls for, in order.\<close>

definition blacklist_updates :: "int \<Rightarrow> string list \<Rightarrow> bpf_call list" where
  "blacklist_updates fd cidrs = List.map_filter (\<lambda>c. map_option (\<lambda>key. Map_update_lpm fd key 1) (zereh_parse_cidr_v4 c)) cidrs"

fun word_updates :: "int \<Rightarrow> nat \<Rightarrow> u64 list \<Rightarrow> bpf_call list" where
  "word_updates fd i [] = []"
| "word_updates fd i (w # ws) = Map_update_u64 fd (of_nat i) w # word_updates fd (i + 1) ws"

definition prog_updates :: "libbpf \<Rightarrow> int \<Rightarrow> nat option \<Rightarrow> zereh_route list \<Rightarrow> bpf_call list" where
  "prog_updates lb fd default_tail rs =
     map (\<lambda>r. Map_update_fd fd (r_prog_index r)
            (lb_program_fd lb (fst (the (zereh_resolve_tail_program lb r default_tail)))))
       (filter (\<lambda>r. r_target r = ZEREH_TARGET_XDP_PROG) rs)"

definition seed_calls :: "libbpf \<Rightarrow> zereh_config \<Rightarrow> bpf_call list" where
  "seed_calls lb cfg =
     (case lb_find_map lb ''ip_blacklist'' of None \<Rightarrow> [] | Some fd \<Rightarrow> blacklist_updates fd (c_blacklist cfg)) @
     (case lb_find_map lb ''pow_bloom'' of None \<Rightarrow> [] | Some fd \<Rightarrow> word_updates fd 0 (bloom_words cfg (lb_time lb))) @
     (case lb_find_map lb ''prog_array'' of None \<Rightarrow> []
      | Some fd \<Rightarrow> prog_updates lb fd (lb_find_program lb ''zereh_app_default'') (c_routes cfg))"

text \<open>
  A seeding step: it only updates maps; if it succeeds, it made exactly the wanted updates
  and all of them returned 0.
\<close>

abbreviation (input) seeds :: "libbpf \<Rightarrow> bpf_call list \<Rightarrow> bpf_call list \<Rightarrow> bool \<Rightarrow> bpf_call list \<Rightarrow> bool" where
  "seeds lb want \<equiv> \<lambda>l ok ext. list_all is_update ext \<and> (ok \<longrightarrow> ext = want \<and> all_ok lb is_update l ext)"

lemma runs_blacklist: "runs (zereh_seed_blacklist_map lb fd cidrs) (seeds lb (blacklist_updates fd cidrs))"
proof (induction cidrs)
  case (Cons c cs)
  show ?case
  proof (cases "zereh_parse_cidr_v4 c")
    case (Some key)
    have "runs (if r \<noteq> 0 then State_Monad.return False else zereh_seed_blacklist_map lb fd cs)
        (\<lambda>l ok ext. seeds lb (blacklist_updates fd cs) l ok ext \<and> (ok \<longrightarrow> r = 0))" for r :: int
      by (cases "r = 0") (auto intro!: runs_return runs_weaken [OF Cons.IH])
    then show ?thesis
      by (simp add: Some) (rule runs_sys_bind, assumption, auto simp: blacklist_updates_def List.map_filter_simps Some)
  qed (simp add: runs_return)
qed (simp add: runs_return blacklist_updates_def List.map_filter_simps)

lemma runs_write_words: "runs (write_words lb fd i ws) (seeds lb (word_updates fd i ws))"
proof (induction ws arbitrary: i)
  case (Cons w ws)
  have "runs (if r \<noteq> 0 then State_Monad.return False else write_words lb fd (i + 1) ws)
      (\<lambda>l ok ext. seeds lb (word_updates fd (i + 1) ws) l ok ext \<and> (ok \<longrightarrow> r = 0))" for r :: int
    by (cases "r = 0") (auto intro!: runs_return runs_weaken [OF Cons.IH])
  then show ?case by simp (rule runs_sys_bind, assumption, auto)
qed (simp add: runs_return)

lemma runs_prog_array: "runs (prog_array_loop lb fd dt rs) (seeds lb (prog_updates lb fd dt rs))"
proof (induction rs)
  case (Cons r rs)
  show ?case
  proof (cases "r_target r = ZEREH_TARGET_XDP_PROG \<and> r_prog_index r < 64")
    case True
    show ?thesis
    proof (cases "zereh_resolve_tail_program lb r dt")
      case (Some pn)
      obtain p n where pn: "pn = (p, n)" by (cases pn)
      have "runs (if x \<noteq> 0 then State_Monad.return False else prog_array_loop lb fd dt rs)
          (\<lambda>l ok ext. seeds lb (prog_updates lb fd dt rs) l ok ext \<and> (ok \<longrightarrow> x = 0))" for x :: int
        by (cases "x = 0") (auto intro!: runs_return runs_weaken [OF Cons.IH])
      then have "runs (do { x \<leftarrow> sys lb (Map_update_fd fd (r_prog_index r) (lb_program_fd lb p));
            if x \<noteq> 0 then State_Monad.return False else prog_array_loop lb fd dt rs })
          (seeds lb (prog_updates lb fd dt (r # rs)))"
        by (rule runs_sys_bind) (use True Some pn in \<open>auto simp: prog_updates_def\<close>)
      then show ?thesis using True Some pn by (auto simp: not_le [symmetric] intro!: runs_return)
    qed (use True in \<open>auto simp: not_le [symmetric] intro!: runs_return\<close>)
  next
    case False
    then show ?thesis using runs_weaken [OF Cons.IH] by (auto simp: prog_updates_def intro!: runs_return)
  qed
qed (simp add: runs_return prog_updates_def)

lemma runs_seed_map:
  assumes "\<And>fd. runs (seed fd) (seeds lb (want fd))"
  shows "runs (seed_map lb name seed) (seeds lb (case lb_find_map lb name of None \<Rightarrow> [] | Some fd \<Rightarrow> want fd))"
  using assms by (auto simp: seed_map_def intro!: runs_return split: option.split)

lemma runs_seed_bind:
  assumes "runs m (seeds lb want)" and "runs m' (seeds lb want')"
  shows "runs (do { ok \<leftarrow> m; if \<not> ok then State_Monad.return False else m' }) (seeds lb (want @ want'))"
proof (rule runs_bind [OF assms(1)])
  show "runs (if \<not> ok then State_Monad.return False else m')
      (\<lambda>l ok' ext. seeds lb want' l ok' ext \<and> (ok' \<longrightarrow> ok))" for ok
    by (cases ok) (auto intro!: runs_return runs_weaken [OF assms(2)])
qed (auto simp: all_ok_append)

lemma runs_seed_maps: "runs (zereh_seed_maps lb cfg) (seeds lb (seed_calls lb cfg))"
  unfolding zereh_seed_maps_def seed_calls_def zereh_seed_bloom_map_def zereh_seed_prog_array_def
  by (intro runs_seed_bind runs_seed_map runs_blacklist runs_write_words runs_prog_array)

section \<open>Attaching\<close>

text \<open>Some call that satisfies \<open>P\<close> returned 0.\<close>

fun some_ok :: "libbpf \<Rightarrow> (bpf_call \<Rightarrow> bool) \<Rightarrow> bpf_call list \<Rightarrow> bpf_call list \<Rightarrow> bool" where
  "some_ok lb P l [] = False"
| "some_ok lb P l (c # cs) = (P c \<and> lb_result lb l c = 0 \<or> some_ok lb P (l @ [c]) cs)"

lemma some_ok_append: "some_ok lb P l (xs @ ys) \<longleftrightarrow> some_ok lb P l xs \<or> some_ok lb P (l @ xs) ys"
  by (induction xs arbitrary: l) auto

text \<open>
  The call that gives back what \<open>c\<close> with result \<open>r\<close> has obtained: a descriptor is closed, the
  handle of a link is destroyed. \<open>released\<close>: each such call is made later.
\<close>

fun must_release :: "bpf_call \<Rightarrow> int \<Rightarrow> bpf_call option" where
  "must_release (Obj_get p) r = (if r \<ge> 0 then Some (Close_fd r) else None)"
| "must_release (Prog_get_fd_by_id i) r = (if r \<ge> 0 then Some (Close_fd r) else None)"
| "must_release (Program_attach_xdp p i) r = (if r = 0 then Some Link_destroy else None)"
| "must_release c r = None"

fun acquires :: "bpf_call \<Rightarrow> bool" where
  "acquires (Obj_get p) = True"
| "acquires (Prog_get_fd_by_id i) = True"
| "acquires (Program_attach_xdp p i) = True"
| "acquires c = False"

fun released :: "libbpf \<Rightarrow> bpf_call list \<Rightarrow> bpf_call list \<Rightarrow> bool" where
  "released lb l [] = True"
| "released lb l (c # cs) =
     ((case must_release c (lb_result lb l c) of None \<Rightarrow> True | Some d \<Rightarrow> d \<in> set cs) \<and> released lb (l @ [c]) cs)"

lemma not_acquires [simp]: "\<not> acquires c \<Longrightarrow> must_release c r = None"
  by (cases c) auto

lemma released_append: "released lb l xs \<Longrightarrow> released lb (l @ xs) ys \<Longrightarrow> released lb l (xs @ ys)"
  by (induction xs arbitrary: l) (auto split: option.splits)

lemma released_none: "list_all (\<lambda>c. \<not> acquires c) cs \<Longrightarrow> released lb l cs"
  by (induction cs arbitrary: l) auto

abbreviation (input) attaches :: "libbpf \<Rightarrow> bpf_call list \<Rightarrow> bool \<Rightarrow> bpf_call list \<Rightarrow> bool" where
  "attaches lb \<equiv> \<lambda>l ok ext. list_all (\<lambda>c. \<not> is_update c) ext \<and> released lb l ext \<and> (ok \<longrightarrow> some_ok lb is_attach l ext)"

lemmas io_simps = sys_def after_call_def Let_def

lemma runs_attach_replace: "runs (zereh_attach_xdp_replace lb ifindex fd mode) (attaches lb)"
  by (rule runsI) (auto simp: zereh_attach_xdp_replace_def io_simps)

lemma runs_attach_or_update: "runs (zereh_attach_or_update_link lb prog ifindex pin mode) (attaches lb)"
proof (cases "mode = ZEREH_XDP_MODE_NATIVE")
  case True
  then show ?thesis by (intro runsI) (auto simp: zereh_attach_or_update_link_def io_simps)
qed (simp add: zereh_attach_or_update_link_def runs_attach_replace)

text \<open>The modes a request may end in.\<close>

fun fallback_modes :: "zereh_xdp_mode \<Rightarrow> zereh_xdp_mode list" where
  "fallback_modes ZEREH_XDP_MODE_OFFLOAD = [ZEREH_XDP_MODE_OFFLOAD, ZEREH_XDP_MODE_NATIVE, ZEREH_XDP_MODE_SKB]"
| "fallback_modes ZEREH_XDP_MODE_NATIVE = [ZEREH_XDP_MODE_NATIVE, ZEREH_XDP_MODE_SKB]"
| "fallback_modes ZEREH_XDP_MODE_SKB = [ZEREH_XDP_MODE_SKB]"

text \<open>The modes are tried in that order until one attaches.\<close>

fun try_modes :: "libbpf \<Rightarrow> nat \<Rightarrow> int \<Rightarrow> string \<Rightarrow> zereh_xdp_mode list \<Rightarrow> zereh_xdp_mode option io" where
  "try_modes lb prog ifindex pin [] = State_Monad.return None"
| "try_modes lb prog ifindex pin (m # ms) = do {
     ok \<leftarrow> zereh_attach_or_update_link lb prog ifindex pin m;
     if ok then State_Monad.return (Some m) else try_modes lb prog ifindex pin ms }"

lemma attach_with_fallback_eq:
  "zereh_attach_with_fallback lb prog ifindex pin mode = try_modes lb prog ifindex pin (fallback_modes mode)"
  by (cases mode) (simp_all add: zereh_attach_with_fallback_def cong: if_cong)

lemma runs_try_modes:
  "runs (try_modes lb prog ifindex pin ms) (\<lambda>l r ext. attaches lb l (r \<noteq> None) ext \<and> (\<forall>m. r = Some m \<longrightarrow> m \<in> set ms))"
proof (induction ms)
  case (Cons m ms)
  have "runs (if ok then State_Monad.return (Some m) else try_modes lb prog ifindex pin ms)
     (\<lambda>l r ext. list_all (\<lambda>c. \<not> is_update c) ext \<and> released lb l ext \<and>
        (ok \<or> (r \<noteq> None \<longrightarrow> some_ok lb is_attach l ext)) \<and> (\<forall>x. r = Some x \<longrightarrow> x \<in> set (m # ms)))" for ok
    by (cases ok) (auto intro!: runs_return runs_weaken [OF Cons.IH])
  then show ?case
    unfolding try_modes.simps
    by (rule runs_bind [OF runs_attach_or_update]) (auto simp: some_ok_append intro: released_append)
qed (simp add: runs_return)

section \<open>The swap\<close>

text \<open>
  \<open>attach_after_seeding\<close>: before an attaching call, exactly the updates \<open>want\<close> were made
  and each returned 0.
\<close>

definition attach_after_seeding :: "libbpf \<Rightarrow> bpf_call list \<Rightarrow> bpf_call list \<Rightarrow> bpf_call list \<Rightarrow> bool" where
  "attach_after_seeding lb want l ext \<longleftrightarrow>
     (\<forall>p c q. ext = p @ c # q \<and> is_attach c \<longrightarrow> filter is_update p = want \<and> all_ok lb is_update l p)"

lemma no_attach_ok: "list_all (\<lambda>c. \<not> is_attach c) ext \<Longrightarrow> attach_after_seeding lb want l ext"
  by (auto simp: attach_after_seeding_def)

lemma updates_no_attach: "list_all is_update ext \<Longrightarrow> list_all (\<lambda>c. \<not> is_attach c \<and> \<not> acquires c) ext"
  by (auto simp: list_all_iff elim!: is_update.elims)

lemma all_ok_no_update: "list_all (\<lambda>c. \<not> is_update c) cs \<Longrightarrow> all_ok lb is_update l cs"
  by (rule all_ok_none) (simp add: list_all_iff)

lemma attach_after_seeding_append:
  assumes "list_all (\<lambda>c. \<not> is_attach c) xs" and "filter is_update xs = want" and "all_ok lb is_update l xs"
    and "list_all (\<lambda>c. \<not> is_update c) ys"
  shows "attach_after_seeding lb want l (xs @ ys)"
  unfolding attach_after_seeding_def
proof (intro allI impI)
  fix p c q assume a: "xs @ ys = p @ c # q \<and> is_attach c"
  then obtain us where us: "p = xs @ us" "ys = us @ c # q"
    using assms(1) by (auto simp: append_eq_append_conv2 append_eq_Cons_conv list_all_iff)
  have "list_all (\<lambda>c. \<not> is_update c) us" using assms(4) us(2) by simp
  then show "filter is_update p = want \<and> all_ok lb is_update l p"
    using us(1) assms(2,3) all_ok_no_update by (simp add: all_ok_append filter_False list_all_iff)
qed

text \<open>
  The contract of the swap: attaching only after complete seeding, no update afterwards,
  descriptors closed, and success only with a successful attach.
\<close>

abbreviation (input) swaps :: "libbpf \<Rightarrow> zereh_config \<Rightarrow> bpf_call list \<Rightarrow> bool \<Rightarrow> bpf_call list \<Rightarrow> bool" where
  "swaps lb cfg \<equiv> \<lambda>l ok ext. attach_after_seeding lb (seed_calls lb cfg) l ext \<and> released lb l ext \<and>
     (ok \<longrightarrow> some_ok lb is_attach l ext)"

text \<open>A step between seeding and attaching.\<close>

lemma runs_ensure_dir:
  "runs (zereh_ensure_dir lb path) (\<lambda>l ok ext. list_all (\<lambda>c. \<not> is_attach c \<and> \<not> is_update c \<and> \<not> acquires c) ext)"
  by (rule runsI) (auto simp: zereh_ensure_dir_def io_simps)

text \<open>After the maps are seeded.\<close>

definition attach_part :: "libbpf \<Rightarrow> zereh_config \<Rightarrow> string \<Rightarrow> int \<Rightarrow> bool io" where
  "attach_part lb cfg ifname ifindex = (case lb_find_program lb (c_xdp_section cfg) of None \<Rightarrow> State_Monad.return False
     | Some prog \<Rightarrow> do {
       ok \<leftarrow> zereh_ensure_dir lb ''/sys/fs/bpf/zereh'';
       if \<not> ok then State_Monad.return False else
       case zereh_build_pin_path PATH_MAX ifname of
         Ret pin_path \<Rightarrow> do {
           effective_mode \<leftarrow> zereh_attach_with_fallback lb prog ifindex pin_path (c_xdp_mode cfg);
           State_Monad.return (effective_mode \<noteq> None) }
       | _ \<Rightarrow> State_Monad.return False })"

lemma runs_attach_part: "runs (attach_part lb cfg ifname ifindex) (attaches lb)"
proof (cases "lb_find_program lb (c_xdp_section cfg)")
  case (Some prog)
  have "runs (if \<not> ok then State_Monad.return False else
       case zereh_build_pin_path PATH_MAX ifname of
         Ret pin_path \<Rightarrow> do {
           effective_mode \<leftarrow> zereh_attach_with_fallback lb prog ifindex pin_path (c_xdp_mode cfg);
           State_Monad.return (effective_mode \<noteq> None) }
       | _ \<Rightarrow> State_Monad.return False) (attaches lb)" for ok
    unfolding attach_with_fallback_eq
    by (auto intro!: runs_return runs_bind [OF runs_try_modes, where P' = "\<lambda>m l r ext. ext = [] \<and> r = (m \<noteq> None)"]
        split: cres.split)
  then show ?thesis
    unfolding attach_part_def Some option.case
    by (rule runs_bind [OF runs_ensure_dir])
      (auto simp: some_ok_append list_all_iff intro: released_append [OF released_none])
qed (simp add: attach_part_def runs_return)

lemma swap_object_eq:
  "swap_object lb cfg ifname ifindex = do {
     r \<leftarrow> sys lb Object_load;
     if r \<noteq> 0 then State_Monad.return False else do {
     ok \<leftarrow> zereh_seed_maps lb cfg;
     if \<not> ok then State_Monad.return False else attach_part lb cfg ifname ifindex } }"
  unfolding swap_object_def attach_part_def ..

lemma runs_seed_then_attach:
  "runs (do { ok \<leftarrow> zereh_seed_maps lb cfg;
      if \<not> ok then State_Monad.return False else attach_part lb cfg ifname ifindex }) (swaps lb cfg)"
proof (rule runs_bind [OF runs_seed_maps])
  show "runs (if \<not> ok then State_Monad.return False else attach_part lb cfg ifname ifindex)
      (\<lambda>l r ext. attaches lb l r ext \<and> (\<not> ok \<longrightarrow> ext = []))" for ok
    by (cases ok) (auto intro!: runs_return runs_weaken [OF runs_attach_part])
next
  fix l ok ext r ext'
  assume s: "seeds lb (seed_calls lb cfg) l ok ext" and a: "attaches lb (l @ ext) r ext' \<and> (\<not> ok \<longrightarrow> ext' = [])"
  have na: "list_all (\<lambda>c. \<not> is_attach c \<and> \<not> acquires c) ext" using s updates_no_attach by blast
  then have na': "list_all (\<lambda>c. \<not> is_attach c) ext" "list_all (\<lambda>c. \<not> acquires c) ext" by (simp_all add: list_all_iff)
  have f: "filter is_update ext = ext" using s by (simp add: filter_True list_all_iff)
  have "attach_after_seeding lb (seed_calls lb cfg) l (ext @ ext')"
  proof (cases ok)
    case True
    then show ?thesis using s a f na' by (intro attach_after_seeding_append) auto
  qed (use a na' no_attach_ok in auto)
  then show "swaps lb cfg l r (ext @ ext')"
    using a released_append [OF released_none [OF na'(2)]] by (auto simp: some_ok_append)
qed

lemma attach_after_seeding_Cons:
  "\<not> is_attach c \<Longrightarrow> \<not> is_update c \<Longrightarrow> attach_after_seeding lb want (l @ [c]) ext \<Longrightarrow>
     attach_after_seeding lb want l (c # ext)"
  by (auto simp: attach_after_seeding_def Cons_eq_append_conv)

lemma runs_swap_object: "runs (swap_object lb cfg ifname ifindex) (swaps lb cfg)"
  unfolding swap_object_eq
proof (rule runs_sys_bind)
  show "runs (if r \<noteq> 0 then State_Monad.return False else do { ok \<leftarrow> zereh_seed_maps lb cfg;
      if \<not> ok then State_Monad.return False else attach_part lb cfg ifname ifindex }) (swaps lb cfg)" for r :: int
    using runs_seed_then_attach by (auto intro!: runs_return simp: no_attach_ok)
qed (auto intro!: attach_after_seeding_Cons)

lemma attach_after_seeding_snoc:
  "\<not> is_attach c \<Longrightarrow> attach_after_seeding lb want l ext \<Longrightarrow> attach_after_seeding lb want l (ext @ [c])"
  by (auto simp: attach_after_seeding_def append_eq_append_conv2 Cons_eq_append_conv append_eq_Cons_conv)

text \<open>The object is closed once it was opened.\<close>

fun object_closed :: "libbpf \<Rightarrow> bpf_call list \<Rightarrow> bpf_call list \<Rightarrow> bool" where
  "object_closed lb l [] = True"
| "object_closed lb l (c # cs) =
     (((\<exists>f. c = Object_open f) \<and> lb_result lb l c = 0 \<longrightarrow> Object_close \<in> set cs) \<and> object_closed lb (l @ [c]) cs)"

lemma object_closed_snoc: "object_closed lb l ext \<or> True \<Longrightarrow> object_closed lb l (ext @ [Object_close])"
  by (induction ext arbitrary: l) auto

lemma runs_load_and_swap:
  "runs (zereh_load_and_swap_xdp lb cfg ovr) (\<lambda>l ok ext. swaps lb cfg l ok ext \<and> object_closed lb l ext)"
proof -
  let ?Q = "\<lambda>l ok ext. swaps lb cfg l ok ext \<and> object_closed lb l ext"
  let ?n = "interface_of cfg ovr"
  have fin: "runs (do { rc \<leftarrow> swap_object lb cfg ?n i; _ \<leftarrow> sys lb Object_close; State_Monad.return rc })
      (\<lambda>l ok ext. swaps lb cfg l ok ext \<and> (\<exists>e. ext = e @ [Object_close]))" for i
    by (rule runs_bind [OF runs_swap_object, where P' = "\<lambda>rc l r ext. r = rc \<and> ext = [Object_close]"])
      (auto intro!: runs_sys_bind [where P' = "\<lambda>x l r ext. ext = [] \<and> r = _"] runs_return attach_after_seeding_snoc
        released_append simp: some_ok_append)
  have fin': "runs (if e \<noteq> 0 then State_Monad.return False
      else do { rc \<leftarrow> swap_object lb cfg ?n i; _ \<leftarrow> sys lb Object_close; State_Monad.return rc })
      (\<lambda>l ok ext. swaps lb cfg l ok ext \<and> (e = 0 \<longrightarrow> (\<exists>e. ext = e @ [Object_close])) \<and> (e \<noteq> 0 \<longrightarrow> ext = []))" for e i :: int
    by (cases "e = 0") (auto intro!: runs_return runs_weaken [OF fin] simp: no_attach_ok)
  have op: "runs (do { err \<leftarrow> sys lb (Object_open f); if err \<noteq> 0 then State_Monad.return False
      else do { rc \<leftarrow> swap_object lb cfg ?n i; _ \<leftarrow> sys lb Object_close; State_Monad.return rc } }) ?Q" for f and i :: int
    by (rule runs_sys_bind [OF fin']) (auto intro!: attach_after_seeding_Cons object_closed_snoc)
  have "runs (if \<not> ok then State_Monad.return False else do { _ \<leftarrow> sys lb Set_strict_mode;
      err \<leftarrow> sys lb (Object_open f); if err \<noteq> 0 then State_Monad.return False
      else do { rc \<leftarrow> swap_object lb cfg ?n i; _ \<leftarrow> sys lb Object_close; State_Monad.return rc } }) ?Q" for ok f and i :: int
    by (cases ok) (auto intro!: runs_return runs_sys_bind [OF op] attach_after_seeding_Cons simp: no_attach_ok)
  note strict = this
  have "runs (if i = 0 then State_Monad.return False else do {
     ok \<leftarrow> zereh_raise_memlock lb;
     if \<not> ok then State_Monad.return False else do { _ \<leftarrow> sys lb Set_strict_mode;
      err \<leftarrow> sys lb (Object_open f); if err \<noteq> 0 then State_Monad.return False
      else do { rc \<leftarrow> swap_object lb cfg ?n i; _ \<leftarrow> sys lb Object_close; State_Monad.return rc } } }) ?Q" for f and i :: int
    unfolding zereh_raise_memlock_def State_Monad.bind_assoc State_Monad.bind_left_identity
    by (auto intro!: runs_return runs_sys_bind [OF strict] attach_after_seeding_Cons simp: no_attach_ok)
  then show ?thesis
    unfolding zereh_load_and_swap_xdp_def Let_def
    by (rule runs_sys_bind) (auto intro!: attach_after_seeding_Cons)
qed

section \<open>Detaching\<close>

text \<open>The call \<open>c\<close> after the history \<open>l\<close> returned 0, or failed with one of the \<open>errs\<close>.\<close>

definition answered :: "libbpf \<Rightarrow> bpf_call list \<Rightarrow> bpf_call \<Rightarrow> int set \<Rightarrow> bool" where
  "answered lb l c errs \<longleftrightarrow> lb_result lb l c = 0 \<or> lb_errno lb (l @ [c]) \<in> errs"

lemma detach_mode_run:
  "run_state (zereh_detach_mode lb i f d) l =
     ((answered lb l (Xdp_detach i f) {ENOENT, EINVAL, EOPNOTSUPP}, lb_result lb l (Xdp_detach i f) = 0 \<or> d),
      l @ [Xdp_detach i f])"
  by (auto simp: zereh_detach_mode_def answered_def io_simps)

text \<open>The first part of \<open>zereh_detach_xdp\<close>: the pinned link.\<close>

lemma unpin_run:
  "run_state (if fd \<ge> 0 then do {
       _ \<leftarrow> sys lb (Close_fd fd);
       r \<leftarrow> sys lb (Unlink_path pin);
       e \<leftarrow> after_call (lb_errno lb);
       State_Monad.return (\<not> (r \<noteq> 0 \<and> e \<noteq> ENOENT)) }
     else State_Monad.return True) l =
   (fd \<ge> 0 \<longrightarrow> answered lb (l @ [Close_fd fd]) (Unlink_path pin) {ENOENT},
    l @ (if fd \<ge> 0 then [Close_fd fd, Unlink_path pin] else []))"
  by (auto simp: answered_def io_simps)

section \<open>Properties\<close>

text \<open>
  (C5) The swap is safe whatever the kernel answers: the running program is replaced only after
  exactly the map updates the configuration calls for were made and all of them succeeded,
  so a failure before that leaves the old program in place; success is reported only if an
  attaching call succeeded; on every path each descriptor obtained is closed, the handle of a
  link that was attached is destroyed, and an opened object is closed.
\<close>

theorem load_and_swap_safe:
  assumes "run_state (zereh_load_and_swap_xdp lb cfg ovr) l = (ok, l')"
  shows "\<exists>ext. l' = l @ ext \<and> attach_after_seeding lb (seed_calls lb cfg) l ext \<and> released lb l ext \<and>
    object_closed lb l ext \<and> (ok \<longrightarrow> some_ok lb is_attach l ext)"
  using runsD [OF runs_load_and_swap assms] by blast

text \<open>A kernel on which everything succeeds and no link is pinned yet.\<close>

definition fresh_kernel :: libbpf where
  "fresh_kernel = \<lparr>lb_result = (\<lambda>l c. case c of If_nametoindex n \<Rightarrow> 2 | Obj_get p \<Rightarrow> - 1 | _ \<Rightarrow> 0), lb_errno = (\<lambda>l. ENOENT),
     lb_old_prog_id = (\<lambda>l. 0), lb_is_dir = (\<lambda>l. True), lb_find_map = (\<lambda>n. if n = ''ip_blacklist'' then Some 7 else None),
     lb_find_program = (\<lambda>n. Some 3), lb_program_fd = (\<lambda>p. 9), lb_time = (\<lambda>i. 0)\<rparr>"

definition fresh_log :: "bpf_call list" where
  "fresh_log = [If_nametoindex ''eth0'', Setrlimit_memlock, Set_strict_mode, Object_open ''build/xdp/router_generated.o'',
     Object_load, Map_update_lpm 7 \<lparr>k_prefixlen = 32, k_addr = s_addr [10, 0, 0, 1]\<rparr> 1,
     Stat_path ''/sys/fs/bpf/zereh'', Obj_get ''/sys/fs/bpf/zereh/xdp_link_eth0'',
     Program_attach_xdp 3 2, Link_pin ''/sys/fs/bpf/zereh/xdp_link_eth0'', Link_destroy, Object_close]"

lemma fresh_run:
  "run_state (zereh_load_and_swap_xdp fresh_kernel (zereh_config_init_defaults\<lparr>c_blacklist := [quad_text 10 0 0 1]\<rparr>) None) []
     = (True, fresh_log)"
proof -
  have pin: "zereh_build_pin_path 4096 ''eth0'' = Ret ''/sys/fs/bpf/zereh/xdp_link_eth0''"
    by (simp add: build_pin_path_iff)
  show ?thesis
    by (simp add: zereh_load_and_swap_xdp_def io_simps interface_of_def zereh_raise_memlock_def swap_object_def
      zereh_seed_maps_def seed_map_def zereh_ensure_dir_def zereh_attach_with_fallback_def
      zereh_attach_or_update_link_def zereh_config_init_defaults_def snprintf_s_def fresh_kernel_def fresh_log_def
      pin parse_cidr_print(1))
qed

theorem load_and_swap_safe_witness:
  "\<exists>ext. fresh_log = [] @ ext \<and> some_ok fresh_kernel is_attach [] ext \<and>
     object_closed fresh_kernel [] ext \<and>
     attach_after_seeding fresh_kernel
       (seed_calls fresh_kernel (zereh_config_init_defaults\<lparr>c_blacklist := [quad_text 10 0 0 1]\<rparr>)) [] ext"
  using load_and_swap_safe [OF fresh_run] by blast

text \<open>
  (C25) Attach fallbacks: the requested mode is tried first, offload falls back to native and
  then to skb, native to skb, skb to nothing; the effective mode is the first that attaches
  and is always one of those.
\<close>

theorem attach_fallback_order:
  assumes "run_state (zereh_attach_with_fallback lb prog ifindex pin mode) l = (r, l')"
  shows "zereh_attach_with_fallback lb prog ifindex pin mode = try_modes lb prog ifindex pin (fallback_modes mode) \<and>
    (\<forall>m. r = Some m \<longrightarrow> m \<in> set (fallback_modes mode)) \<and>
    (r \<noteq> None \<longrightarrow> (\<exists>ext. l' = l @ ext \<and> some_ok lb is_attach l ext))"
proof -
  note eq = attach_with_fallback_eq [of lb prog ifindex pin mode]
  show ?thesis
    using runsD [OF runs_try_modes assms [unfolded eq]] eq by blast
qed

text \<open>A kernel that refuses native mode.\<close>

definition skb_only_kernel :: libbpf where
  "skb_only_kernel = fresh_kernel\<lparr>lb_errno := (\<lambda>l. EINVAL)\<rparr>"

theorem attach_fallback_order_witness:
  "\<exists>l'. run_state (zereh_attach_with_fallback skb_only_kernel 3 2 ''/p'' ZEREH_XDP_MODE_NATIVE) [] = (Some ZEREH_XDP_MODE_SKB, l') \<and>
     some_ok skb_only_kernel is_attach [] l'"
proof -
  have run: "run_state (zereh_attach_with_fallback skb_only_kernel 3 2 ''/p'' ZEREH_XDP_MODE_NATIVE) [] =
    (Some ZEREH_XDP_MODE_SKB, [Obj_get ''/p'', Xdp_query_id 2 2, Xdp_attach 2 9 2 0])"
    by (simp add: zereh_attach_with_fallback_def zereh_attach_or_update_link_def zereh_attach_xdp_replace_def
        zereh_xdp_mode_to_flags_def io_simps skb_only_kernel_def fresh_kernel_def)
  then show ?thesis using attach_fallback_order [OF run] by simp
qed

text \<open>
  (C26) What a successful detach has done, exactly. It succeeds if and only if the interface
  exists and its name makes a pin path, and: when a pinned link was found (\<open>fd \<ge> 0\<close>), its
  descriptor was closed and the pin unlinked, where unlinking succeeded or the pin was gone
  (\<open>ENOENT\<close>); and the program was then detached in native (4), offload (8) and skb mode (2), in
  this order, where each detach succeeded or the kernel reported that there was nothing to
  detach or that the mode is not supported. It makes these calls and no others.
\<close>

theorem detach_covers_modes:
  assumes "ifname = interface_of cfg ovr" and "i = lb_result lb l (If_nametoindex ifname)"
    and "pin = ''/sys/fs/bpf/zereh/xdp_link_'' @ ifname" and "l1 = l @ [If_nametoindex ifname, Obj_get pin]"
    and "fd = lb_result lb (l @ [If_nametoindex ifname]) (Obj_get pin)"
    and "l2 = l1 @ (if fd \<ge> 0 then [Close_fd fd, Unlink_path pin] else [])"
    and "benign = {ENOENT, EINVAL, EOPNOTSUPP}"
  shows "run_state (zereh_detach_xdp lb cfg ovr) l = (True, l') \<longleftrightarrow>
    i \<noteq> 0 \<and> 0 < length ifname \<and> length ifname < 16 \<and>
    (fd \<ge> 0 \<longrightarrow> answered lb (l1 @ [Close_fd fd]) (Unlink_path pin) {ENOENT}) \<and>
    answered lb l2 (Xdp_detach i 4) benign \<and>
    answered lb (l2 @ [Xdp_detach i 4]) (Xdp_detach i 8) benign \<and>
    answered lb (l2 @ [Xdp_detach i 4, Xdp_detach i 8]) (Xdp_detach i 2) benign \<and>
    l' = l2 @ [Xdp_detach i 4, Xdp_detach i 8, Xdp_detach i 2]"
proof (cases "i \<noteq> 0 \<and> 0 < length ifname \<and> length ifname < 16")
  case True
  then have pin: "zereh_build_pin_path PATH_MAX (interface_of cfg ovr) = Ret pin"
    using assms(1,3) by (simp add: build_pin_path_iff)
  have i: "run_state (sys lb (If_nametoindex (interface_of cfg ovr))) l = (i, l @ [If_nametoindex ifname])"
    using assms(1,2) by (simp add: sys_def)
  have g: "run_state (sys lb (Obj_get pin)) (l @ [If_nametoindex ifname]) = (fd, l1)"
    using assms(4,5) by (simp add: sys_def)
  show ?thesis
    using True unfolding zereh_detach_xdp_def Let_def pin cres.case
    by (auto simp: i g unpin_run detach_mode_run assms(6,7))
qed (use assms(1,2) in \<open>auto simp: zereh_detach_xdp_def io_simps build_pin_path_eq\<close>)

text \<open>A kernel with a link pinned for the interface, on which every call succeeds.\<close>

definition pinned_kernel :: libbpf where
  "pinned_kernel = fresh_kernel\<lparr>lb_result := (\<lambda>l c. case c of If_nametoindex n \<Rightarrow> 2 | Obj_get p \<Rightarrow> 5 | _ \<Rightarrow> 0)\<rparr>"

theorem detach_covers_modes_witness:
  "run_state (zereh_detach_xdp pinned_kernel zereh_config_init_defaults (Some ''eth0'')) [] =
     (True, [If_nametoindex ''eth0'', Obj_get ''/sys/fs/bpf/zereh/xdp_link_eth0'', Close_fd 5,
       Unlink_path ''/sys/fs/bpf/zereh/xdp_link_eth0'', Xdp_detach 2 4, Xdp_detach 2 8, Xdp_detach 2 2])"
  by (subst detach_covers_modes [OF refl refl refl refl refl refl refl])
    (simp add: interface_of_def answered_def pinned_kernel_def fresh_kernel_def)

end
