(* ===== verification/Zereh_Codegen.thy ===== *)
theory Zereh_Codegen
  imports Zereh_Router
begin

text \<open>
  The code generator (\<open>control/codegen.c\<close>): the string builder, C string escaping, template
  substitution and the text of the route cases and fallback rules. What the generated
  statements do when they run is \<open>zereh_dispatch\<close> of \<open>Zereh_Router\<close>.

  A buffer from \<open>calloc\<close>/\<open>realloc\<close> is a list of cells, \<open>None\<close> while a cell is
  indeterminate. Whether an allocation of a size succeeds is the parameter \<open>mem\<close>. The
  result \<open>Err\<close> is \<open>-1\<close> (or a null pointer); \<open>Fault\<close> is a store outside the buffer or
  the doubling loop of \<open>zereh_sb_reserve\<close> not ending. Sizes are \<open>size_t\<close>: sums and the
  doubled capacity wrap at \<open>2 ^ 64\<close>, so that the loop does not end from capacity 0 and, from a
  power of two, for a size above \<open>2 ^ 63\<close> (\<open>sb_grow_diverges\<close>); texts shorter than
  \<open>2 ^ 63\<close> stay clear of that.
  Reading the template and writing the output are parameters of
  \<open>zereh_generate_xdp_source\<close>.

  The builder's two append operations satisfy one contract (locale \<open>text_builder\<close>), from
  which the escaping, the substitution and the generated text are derived.
\<close>

section \<open>Definitions\<close>

subsection \<open>String builder\<close>

record zereh_sb =
  sb_data :: "char option list"
  sb_len :: nat
  sb_cap :: nat

abbreviation (input) "NUL \<equiv> CHR 0x00"
abbreviation (input) "NL \<equiv> [CHR 0x0A]"
abbreviation (input) "DQ \<equiv> [CHR 0x22]"

definition zereh_sb_init :: "(nat \<Rightarrow> bool) \<Rightarrow> nat \<Rightarrow> zereh_sb cres" where
  "zereh_sb_init mem cap =
     (if mem cap then Ret \<lparr>sb_data = replicate cap (Some NUL), sb_len = 0, sb_cap = cap\<rparr> else Err)"

text \<open>Arithmetic in \<open>size_t\<close> wraps at 64 bits.\<close>

definition size_t :: "nat \<Rightarrow> nat" where
  "size_t n = n mod 2 ^ 64"

text \<open>\<open>while (cap < required) cap *= 2;\<close>, \<open>None\<close> if it does not end\<close>

partial_function (option) sb_grow :: "nat \<Rightarrow> nat \<Rightarrow> nat option" where
  "sb_grow cap required =
     (if required \<le> cap then Some cap else sb_grow (size_t (cap * 2)) required)"

definition zereh_sb_reserve :: "(nat \<Rightarrow> bool) \<Rightarrow> zereh_sb \<Rightarrow> nat \<Rightarrow> zereh_sb cres" where
  "zereh_sb_reserve mem sb extra = (
     let required = size_t (sb_len sb + extra + 1) in
     if required \<le> sb_cap sb then Ret sb else
     case sb_grow (sb_cap sb) required of None \<Rightarrow> Fault
     | Some cap \<Rightarrow>
         if mem cap
         then Ret (sb\<lparr>sb_data := take cap (sb_data sb) @ replicate (cap - length (sb_data sb)) None, sb_cap := cap\<rparr>)
         else Err)"

text \<open>Storing characters from a position on.\<close>

definition store_at :: "char option list \<Rightarrow> nat \<Rightarrow> string \<Rightarrow> char option list cres" where
  "store_at buf pos cs = (if pos + length cs \<le> length buf
     then Ret (take pos buf @ map Some cs @ drop (pos + length cs) buf) else Fault)"

definition zereh_sb_appendn :: "(nat \<Rightarrow> bool) \<Rightarrow> zereh_sb \<Rightarrow> string \<Rightarrow> zereh_sb cres" where
  "zereh_sb_appendn mem sb t =
     cres_bind (zereh_sb_reserve mem sb (length t)) (\<lambda>sb.
     cres_bind (store_at (sb_data sb) (sb_len sb) t) (\<lambda>d.
     let sb = sb\<lparr>sb_data := d, sb_len := size_t (sb_len sb + length t)\<rparr> in
     cres_bind (store_at (sb_data sb) (sb_len sb) [NUL]) (\<lambda>d. Ret (sb\<lparr>sb_data := d\<rparr>))))"

text \<open>
  \<open>t\<close> is the formatted text; \<open>vsnprintf\<close> reports its length as an \<open>int\<close>, fails when that cannot
  hold it (\<open>need < 0\<close>), and stores what fits before the terminator.
\<close>

abbreviation (input) "INT_MAX \<equiv> (2147483647 :: nat)"

definition zereh_sb_appendf :: "(nat \<Rightarrow> bool) \<Rightarrow> zereh_sb \<Rightarrow> string \<Rightarrow> zereh_sb cres" where
  "zereh_sb_appendf mem sb t = (
     if length t > INT_MAX then Err else
     cres_bind (zereh_sb_reserve mem sb (length t)) (\<lambda>sb.
     let room = size_t (sb_cap sb + 2 ^ 64 - sb_len sb) in
     cres_bind (if room = 0 then Ret (sb_data sb)
                else store_at (sb_data sb) (sb_len sb) (take (room - 1) t @ [NUL])) (\<lambda>d.
     Ret (sb\<lparr>sb_data := d, sb_len := size_t (sb_len sb + length t)\<rparr>))))"

text \<open>The C string at \<open>sb.data\<close>.\<close>

definition sb_cstr :: "zereh_sb \<Rightarrow> string" where
  "sb_cstr sb = map the (takeWhile (\<lambda>c. c \<noteq> Some NUL) (sb_data sb))"

subsection \<open>Escaping and substitution\<close>

fun escape_loop :: "(nat \<Rightarrow> bool) \<Rightarrow> zereh_sb \<Rightarrow> string \<Rightarrow> zereh_sb cres" where
  "escape_loop mem sb [] = Ret sb"
| "escape_loop mem sb (c # cs) =
     cres_bind
       (if c = CHR 0x5C \<or> c = CHR 0x22 then zereh_sb_appendf mem sb [CHR 0x5C, c]
        else if c = CHR 0x0A then zereh_sb_appendn mem sb [CHR 0x5C, CHR ''n'']
        else if c = CHR 0x0D then zereh_sb_appendn mem sb [CHR 0x5C, CHR ''r'']
        else if c = CHR 0x09 then zereh_sb_appendn mem sb [CHR 0x5C, CHR ''t'']
        else zereh_sb_appendn mem sb [c])
       (\<lambda>sb. escape_loop mem sb cs)"

definition zereh_escape_c_string :: "(nat \<Rightarrow> bool) \<Rightarrow> string \<Rightarrow> string cres" where
  "zereh_escape_c_string mem t =
     cres_bind (zereh_sb_init mem 64) (\<lambda>sb. cres_bind (escape_loop mem sb t) (\<lambda>sb. Ret (sb_cstr sb)))"

text \<open>\<open>strstr\<close>: the offset of the first occurrence\<close>

fun strstr :: "string \<Rightarrow> string \<Rightarrow> nat option" where
  "strstr [] token = (if token = [] then Some 0 else None)"
| "strstr (c # cs) token =
     (if take (length token) (c # cs) = token then Some 0 else map_option Suc (strstr cs token))"

lemma strstr_bound: "strstr s token = Some n \<Longrightarrow> n + length token \<le> length s"
proof (induction s arbitrary: n)
  case (Cons c cs)
  show ?case
  proof (cases "take (length token) (c # cs) = token")
    case True
    then have "length token \<le> length (c # cs)" by (metis length_take min.cobounded1)
    then show ?thesis using True Cons.prems by simp
  qed (use Cons in auto)
qed (auto split: if_splits)

function replace_loop :: "(nat \<Rightarrow> bool) \<Rightarrow> zereh_sb \<Rightarrow> string \<Rightarrow> string \<Rightarrow> string \<Rightarrow> zereh_sb cres" where
  "replace_loop mem sb cursor token replacement =
     (if token = [] then Err else
      case strstr cursor token of
        Some n \<Rightarrow>
          cres_bind (zereh_sb_appendn mem sb (take n cursor)) (\<lambda>sb.
          cres_bind (zereh_sb_appendn mem sb replacement) (\<lambda>sb.
          replace_loop mem sb (drop (n + length token) cursor) token replacement))
      | None \<Rightarrow> zereh_sb_appendn mem sb cursor)"
  by pat_completeness auto
termination
proof (relation "measure (\<lambda>(mem, sb, cursor, token, replacement). length cursor)", goal_cases)
  case (2 mem sb cursor token replacement n sb1 sb2)
  then show ?case using strstr_bound [of cursor token n] by (cases token) auto
qed simp

declare replace_loop.simps [simp del]

definition zereh_replace_all :: "(nat \<Rightarrow> bool) \<Rightarrow> string \<Rightarrow> string \<Rightarrow> string \<Rightarrow> string cres" where
  "zereh_replace_all mem input token replacement = (
     if token = [] then Err else
     cres_bind (zereh_sb_init mem (size_t (length input + length replacement + 256))) (\<lambda>sb.
     cres_bind (replace_loop mem sb input token replacement) (\<lambda>sb. Ret (sb_cstr sb))))"

subsection \<open>Generated text\<close>

abbreviation (input) u_text :: "'a::len word \<Rightarrow> string" where
  "u_text w \<equiv> dec_of (unat w)"

definition action_text :: "string \<Rightarrow> zereh_route \<Rightarrow> string" where
  "action_text indent route = (case r_target route of
     ZEREH_TARGET_USER_SPACE \<Rightarrow>
       indent @ ''return bpf_redirect_map(&xsk_map, '' @ u_text (r_xsk_queue route) @ '', 0);'' @ NL
   | ZEREH_TARGET_KERNEL_SPACE \<Rightarrow>
       indent @ ''return zereh_route_kernel_space(iph, udp, bpf_htons('' @ u_text (r_kernel_port route) @ ''), 0);'' @ NL
   | ZEREH_TARGET_XDP_PROG \<Rightarrow>
       indent @ ''bpf_tail_call(ctx, &prog_array, '' @ u_text (r_prog_index route) @ '');'' @ NL @
       indent @ ''return XDP_DROP;'' @ NL)"

definition arg_line :: "string \<Rightarrow> string" where
  "arg_line t = replicate 37 (CHR '' '') @ t @ '','' @ NL"

definition filters_text :: "string \<Rightarrow> string \<Rightarrow> zereh_route \<Rightarrow> u32 \<Rightarrow> string" where
  "filters_text pfx sfx route route_id =
     ''        if (!zereh_apply_app_filters(qmeta,'' @ NL @
     arg_line (DQ @ pfx @ DQ) @
     arg_line (dec_of (length (r_prefix route))) @
     arg_line (DQ @ sfx @ DQ) @
     arg_line (dec_of (length (r_suffix route))) @
     arg_line (u_text (r_min_labels route)) @
     arg_line (u_text (r_max_labels route)) @
     arg_line (u_text (r_qname_min_len route)) @
     arg_line (u_text (r_qname_max_len route)) @
     arg_line ''route_hash'' @
     arg_line (u_text route_id) @
     arg_line (''0x'' @ hex_of (unat (r_rrtype_mask route)) @ ''u'') @
     arg_line (u_text (r_pow_difficulty route)) @
     arg_line (u_text (r_pow_time_window route)) @
     arg_line (u_text (r_bloom_enabled route)) @
     arg_line (u_text (r_bloom_size route)) @
     arg_line (u_text (r_bloom_hash_functions route)) @
     arg_line (u_text (r_bloom_time_window route)) @
     replicate 37 (CHR '' '') @ u_text (r_rate_limit_qps route) @ '')) {'' @ NL @
     ''            return XDP_DROP;'' @ NL @
     ''        }'' @ NL"

definition case_text :: "string \<Rightarrow> string \<Rightarrow> zereh_route \<Rightarrow> u32 \<Rightarrow> string" where
  "case_text pfx sfx route route_id =
     ''    case 0x'' @ hex_pad 16 (unat (r_hash route)) @ ''ULL:'' @ NL @
     filters_text pfx sfx route route_id @ action_text (replicate 8 (CHR '' '')) route"

definition fallback_text :: "string \<Rightarrow> string \<Rightarrow> string \<Rightarrow> zereh_route \<Rightarrow> u32 \<Rightarrow> string" where
  "fallback_text domain pfx sfx route route_id =
     ''    if (zereh_match_suffix(qmeta->qname, qmeta->qname_len, '' @ DQ @ domain @ DQ @ '', '' @
       dec_of (length (r_domain route)) @ '')) {'' @ NL @
     filters_text pfx sfx route route_id @ action_text (replicate 12 (CHR '' '')) route @
     ''    }'' @ NL"

text \<open>\<open>asprintf\<close> fails if it cannot allocate the text.\<close>

definition zereh_append_route_case :: "(nat \<Rightarrow> bool) \<Rightarrow> zereh_sb \<Rightarrow> zereh_route \<Rightarrow> u32 \<Rightarrow> zereh_sb cres" where
  "zereh_append_route_case mem sb route route_id =
     cres_bind (zereh_escape_c_string mem (r_prefix route)) (\<lambda>pfx.
     cres_bind (zereh_escape_c_string mem (r_suffix route)) (\<lambda>sfx.
     if \<not> mem (length (action_text (replicate 8 (CHR '' '')) route) + 1) then Err
     else zereh_sb_appendf mem sb (case_text pfx sfx route route_id)))"

definition zereh_append_fallback_rule :: "(nat \<Rightarrow> bool) \<Rightarrow> zereh_sb \<Rightarrow> zereh_route \<Rightarrow> u32 \<Rightarrow> zereh_sb cres" where
  "zereh_append_fallback_rule mem sb route route_id =
     cres_bind (zereh_escape_c_string mem (r_domain route)) (\<lambda>domain.
     cres_bind (zereh_escape_c_string mem (r_prefix route)) (\<lambda>pfx.
     cres_bind (zereh_escape_c_string mem (r_suffix route)) (\<lambda>sfx.
     if \<not> mem (length (action_text (replicate 12 (CHR '' '')) route) + 1) then Err
     else zereh_sb_appendf mem sb (fallback_text domain pfx sfx route route_id))))"

fun append_routes :: "(zereh_sb \<Rightarrow> zereh_route \<Rightarrow> u32 \<Rightarrow> zereh_sb cres) \<Rightarrow> zereh_sb \<Rightarrow> u32 \<Rightarrow> zereh_route list \<Rightarrow> zereh_sb cres" where
  "append_routes app sb i [] = Ret sb"
| "append_routes app sb i (r # rs) = cres_bind (app sb r i) (\<lambda>sb. append_routes app sb (i + 1) rs)"

definition cases_header :: "zereh_config \<Rightarrow> string" where
  "cases_header cfg = ''    /* Generated from YAML: '' @ dec_of (length (c_routes cfg)) @ '' routes, '' @
     dec_of (length (c_blacklist cfg)) @ '' blacklist CIDRs */'' @ NL"

definition zereh_generate_route_cases :: "(nat \<Rightarrow> bool) \<Rightarrow> zereh_config \<Rightarrow> string cres" where
  "zereh_generate_route_cases mem cfg =
     cres_bind (zereh_sb_init mem 2048) (\<lambda>sb.
     cres_bind (zereh_sb_appendf mem sb (cases_header cfg)) (\<lambda>sb.
     cres_bind (append_routes (zereh_append_route_case mem) sb 0 (c_routes cfg)) (\<lambda>sb. Ret (sb_cstr sb))))"

definition zereh_generate_fallback_rules :: "(nat \<Rightarrow> bool) \<Rightarrow> zereh_config \<Rightarrow> string cres" where
  "zereh_generate_fallback_rules mem cfg =
     cres_bind (zereh_sb_init mem 1024) (\<lambda>sb.
     cres_bind (append_routes (zereh_append_fallback_rule mem) sb 0 (c_routes cfg)) (\<lambda>sb. Ret (sb_cstr sb)))"

text \<open>The values substituted for the template's constants.\<close>

definition packet_size_str :: "zereh_config \<Rightarrow> string" where
  "packet_size_str cfg = snprintf_s 32 (u_text (c_max_packet_size cfg))"
definition opcode_mask_str :: "zereh_config \<Rightarrow> string" where
  "opcode_mask_str cfg = snprintf_s 32 (u_text (c_allowed_opcode_mask cfg))"
definition drop_truncated_str :: "zereh_config \<Rightarrow> string" where
  "drop_truncated_str cfg = snprintf_s 8 (if c_drop_truncated cfg \<noteq> 0 then ''1'' else ''0'')"
definition inline_checksums_str :: "zereh_config \<Rightarrow> string" where
  "inline_checksums_str cfg = snprintf_s 8 (if c_inline_checksums cfg \<noteq> 0 then ''1'' else ''0'')"
definition hash_algo_str :: "zereh_config \<Rightarrow> string" where
  "hash_algo_str cfg = snprintf_s 8 (if c_hash_algo cfg = ZEREH_HASH_SIPHASH then ''1'' else ''0'')"
definition rate_state_entries_str :: "zereh_config \<Rightarrow> string" where
  "rate_state_entries_str cfg = snprintf_s 16 (dec_of (if c_routes cfg \<noteq> [] then length (c_routes cfg) else 1))"
definition default_action_str :: "zereh_config \<Rightarrow> string" where
  "default_action_str cfg = (if c_default_action cfg = ZEREH_ACTION_DROP then ''XDP_DROP'' else ''XDP_PASS'')"

text \<open>The nine substitutions, in order.\<close>

fun replace_chain :: "(nat \<Rightarrow> bool) \<Rightarrow> string \<Rightarrow> (string \<times> string) list \<Rightarrow> string cres" where
  "replace_chain mem t [] = Ret t"
| "replace_chain mem t ((token, replacement) # rest) =
     cres_bind (zereh_replace_all mem t token replacement) (\<lambda>t. replace_chain mem t rest)"

definition substitutions :: "zereh_config \<Rightarrow> string \<Rightarrow> string \<Rightarrow> (string \<times> string) list" where
  "substitutions cfg cases_text rules_text = [
     (''/*__ZEREH_ROUTE_CASES__*/'', cases_text),
     (''/*__ZEREH_FALLBACK_RULES__*/'', rules_text),
     (''__ZEREH_MAX_PACKET_SIZE__'', packet_size_str cfg),
     (''__ZEREH_ALLOWED_OPCODE_MASK__'', opcode_mask_str cfg),
     (''__ZEREH_DROP_TRUNCATED__'', drop_truncated_str cfg),
     (''__ZEREH_DEFAULT_ACTION__'', default_action_str cfg),
     (''__ZEREH_INLINE_CHECKSUMS__'', inline_checksums_str cfg),
     (''__ZEREH_HASH_ALGO__'', hash_algo_str cfg),
     (''__ZEREH_RATE_STATE_ENTRIES__'', rate_state_entries_str cfg)]"

text \<open>
  \<open>read_file path\<close> is the content of a file, \<open>write_file path content\<close> whether writing
  succeeds; the result is the path and the content written.
\<close>

definition zereh_generate_xdp_source ::
  "(nat \<Rightarrow> bool) \<Rightarrow> (string \<Rightarrow> string option) \<Rightarrow> (string \<Rightarrow> string \<Rightarrow> bool) \<Rightarrow> zereh_config \<Rightarrow> (string \<times> string) cres" where
  "zereh_generate_xdp_source mem read_file write_file cfg = (case read_file (c_template_path cfg) of
     None \<Rightarrow> Err
   | Some template \<Rightarrow>
       cres_bind (zereh_generate_route_cases mem cfg) (\<lambda>cases_text.
       cres_bind (zereh_generate_fallback_rules mem cfg) (\<lambda>rules_text.
       cres_bind (replace_chain mem (cstr template) (substitutions cfg cases_text rules_text)) (\<lambda>out.
       if write_file (c_generated_source cfg) out then Ret (c_generated_source cfg, out) else Err))))"

section \<open>The string builder\<close>

definition sb_ok :: "zereh_sb \<Rightarrow> bool" where
  "sb_ok sb \<longleftrightarrow> length (sb_data sb) = sb_cap sb \<and> sb_len sb < sb_cap sb \<and> sb_cap sb < 2 ^ 64 \<and>
     sb_data sb ! sb_len sb = Some NUL \<and> None \<notin> set (take (sb_len sb) (sb_data sb))"

definition sb_text :: "zereh_sb \<Rightarrow> string" where
  "sb_text sb = map the (take (sb_len sb) (sb_data sb))"

lemma length_sb_text: "sb_ok sb \<Longrightarrow> length (sb_text sb) = sb_len sb"
  by (simp add: sb_ok_def sb_text_def)

lemma size_t_small [simp]: "n < 2 ^ 64 \<Longrightarrow> size_t n = n"
  by (simp add: size_t_def)

lemma size_t_less [simp]: "size_t n < 18446744073709551616"
  by (simp add: size_t_def)

subsection \<open>The growth loop\<close>

text \<open>From a positive capacity the doubling loop ends for every size up to \<open>2 ^ 63\<close>.\<close>

lemma sb_grow_spec:
  assumes "required \<le> 2 ^ 63"
  shows "0 < cap \<Longrightarrow> cap < 2 ^ 64 \<Longrightarrow> \<exists>c. sb_grow cap required = Some c"
proof (induction "required - cap" arbitrary: cap rule: less_induct)
  case less
  show ?case
  proof (cases "required \<le> cap")
    case False
    then have d: "size_t (cap * 2) = cap * 2" using assms by simp
    have "\<exists>c. sb_grow (cap * 2) required = Some c" using False less assms by auto
    then show ?thesis using False d by (subst sb_grow.simps) simp
  qed (subst sb_grow.simps, simp)
qed

text \<open>When it ends, the capacity is large enough.\<close>

lemma sb_grow_Some: "sb_grow cap required = Some c \<Longrightarrow> cap < 2 ^ 64 \<longrightarrow> required \<le> c \<and> c < 2 ^ 64"
  by (rule sb_grow.raw_induct [where P = "\<lambda>cap required c. cap < 2 ^ 64 \<longrightarrow> required \<le> c \<and> c < 2 ^ 64"])
    (auto split: if_splits)

text \<open>For a larger size it runs forever: the capacity reaches 0.\<close>

lemma sb_grow_diverges:
  assumes "2 ^ 63 < required"
  shows "sb_grow 0 required = None" "k < 64 \<Longrightarrow> sb_grow (2 ^ k) required = None"
proof -
  have "2 ^ 63 < required \<longrightarrow> \<not> (cap = 0 \<or> (\<exists>k < 64. cap = 2 ^ k))" if "sb_grow cap required = Some c" for cap required c
  proof (rule sb_grow.raw_induct [where P = "\<lambda>cap required c. 2 ^ 63 < required \<longrightarrow> \<not> (cap = 0 \<or> (\<exists>k < 64. cap = 2 ^ k))"],
      goal_cases)
    case (1 grow cap required c)
    show ?case
    proof (intro impI notI)
      assume r: "2 ^ 63 < required" and c: "cap = 0 \<or> (\<exists>k < 64. cap = 2 ^ k)"
      have "k < 63 \<or> k = 63" if "k < 64" for k :: nat using that by linarith
      with c consider "cap = 0" | k where "k < 63" "cap = 2 ^ k" | "cap = 2 ^ 63" by blast
      then show False
      proof cases
        case 2
        then have "cap \<le> 2 ^ 62" "size_t (cap * 2) = 2 ^ Suc k"
          using power_increasing [of k 62 "2::nat"] power_strict_increasing [of "Suc k" 64 "2::nat"] by (auto simp: size_t_def)
        then have "grow (2 ^ Suc k) required = Some c" using 1(2) r 2 by (auto simp: mult.commute split: if_splits)
        moreover have "Suc k < 64" using 2(1) by linarith
        ultimately show False using 1(1) r by blast
      qed (use 1 r in \<open>auto simp: size_t_def split: if_splits\<close>)
    qed
  qed (fact that)
  with assms show "sb_grow 0 required = None" "k < 64 \<Longrightarrow> sb_grow (2 ^ k) required = None"
    by (metis option.exhaust)+
qed

subsection \<open>Appending\<close>

lemma reserve_Ret:
  assumes "sb_ok sb" and "zereh_sb_reserve mem sb n = Ret r"
  shows "length (sb_data r) = sb_cap r" "sb_len r = sb_len sb" "sb_cap r < 2 ^ 64"
    "take (sb_len sb) (sb_data r) = take (sb_len sb) (sb_data sb)" "size_t (sb_len sb + n + 1) \<le> sb_cap r"
  using assms sb_grow_Some [of "sb_cap sb" "size_t (sb_len sb + n + 1)"]
  by (auto simp: zereh_sb_reserve_def sb_ok_def Let_def split: if_splits option.splits)

text \<open>Texts below \<open>2 ^ 63\<close> never wrap, so reserving ends and fails only for memory.\<close>

lemma reserve_not:
  assumes "sb_ok sb" and "sb_len sb + n < 2 ^ 63"
  shows "zereh_sb_reserve mem sb n \<noteq> Fault" "\<forall>k. mem k \<Longrightarrow> zereh_sb_reserve mem sb n \<noteq> Err"
proof -
  have "\<exists>c. sb_grow (sb_cap sb) (sb_len sb + n + 1) = Some c"
    using assms by (intro sb_grow_spec) (auto simp: sb_ok_def)
  then show "zereh_sb_reserve mem sb n \<noteq> Fault" "\<forall>k. mem k \<Longrightarrow> zereh_sb_reserve mem sb n \<noteq> Err"
    using assms(2) by (auto simp: zereh_sb_reserve_def Let_def split: if_splits)
qed

text \<open>The contract of the append operations, for texts that \<open>fit\<close>.\<close>

locale text_builder =
  fixes app :: "'b \<Rightarrow> string \<Rightarrow> 'b cres" and ok :: "'b \<Rightarrow> bool" and content :: "'b \<Rightarrow> string"
    and enough :: bool and fit :: "'b \<Rightarrow> string \<Rightarrow> bool"
  assumes app_safe: "ok b \<Longrightarrow> fit b t \<Longrightarrow> app b t \<noteq> Fault"
    and app_text: "ok b \<Longrightarrow> fit b t \<Longrightarrow> app b t = Ret b' \<Longrightarrow> ok b' \<and> content b' = content b @ t"
    and app_total: "ok b \<Longrightarrow> fit b t \<Longrightarrow> enough \<Longrightarrow> app b t \<noteq> Err"
begin

lemma app_cases:
  "ok b \<Longrightarrow> fit b t \<Longrightarrow>
     (\<exists>b'. app b t = Ret b' \<and> ok b' \<and> content b' = content b @ t) \<or> app b t = Err \<and> \<not> enough"
  using app_safe [of b t] app_text [of b t] app_total [of b t] by (cases "app b t") auto

end

lemma store_text:
  assumes "length d = cap" and "cap < 2 ^ 64" and "n + length t + 1 \<le> cap" and "None \<notin> set (take n d)"
    and "d' = take n d @ map Some t @ Some NUL # rest" and "length d' = cap"
  shows "sb_ok \<lparr>sb_data = d', sb_len = n + length t, sb_cap = cap\<rparr>"
    "sb_text \<lparr>sb_data = d', sb_len = n + length t, sb_cap = cap\<rparr> = map the (take n d) @ t"
  using assms by (auto simp: sb_ok_def sb_text_def nth_append min_def comp_def)

text \<open>The builder after a text and its terminator were stored.\<close>

definition stored :: "zereh_sb \<Rightarrow> string \<Rightarrow> zereh_sb" where
  "stored r t = \<lparr>sb_data = take (sb_len r) (sb_data r) @ map Some t @ Some NUL # drop (sb_len r + length t + 1) (sb_data r),
     sb_len = sb_len r + length t, sb_cap = sb_cap r\<rparr>"

lemma stored_ok:
  assumes "sb_ok sb" and "zereh_sb_reserve mem sb n = Ret r" and "sb_len sb + length t + 1 \<le> sb_cap r"
  shows "sb_ok (stored r t)" "sb_text (stored r t) = sb_text sb @ t"
proof -
  note r = reserve_Ret [OF assms(1,2)]
  have "None \<notin> set (take (sb_len sb) (sb_data r))" using assms(1) r(4) by (simp add: sb_ok_def)
  then show "sb_ok (stored r t)" "sb_text (stored r t) = sb_text sb @ t"
    using store_text [of "sb_data r" "sb_cap r" "sb_len sb" t "sb_data (stored r t)" "drop (sb_len sb + length t + 1) (sb_data r)"]
      r assms(1,3) by (simp_all add: stored_def sb_text_def sb_ok_def [of sb])
qed

text \<open>A successful append is exact whatever the length: a wrapped size ends in a fault.\<close>

lemma appendn_cases:
  assumes "sb_ok sb" and "zereh_sb_reserve mem sb (length t) = Ret r"
  shows "zereh_sb_appendn mem sb t = (if sb_len sb + length t + 1 \<le> sb_cap r then Ret (stored r t) else Fault)"
proof -
  have "sb_len sb < sb_cap r"
    using assms reserve_Ret(4) [OF assms] by (auto simp: zereh_sb_reserve_def sb_ok_def Let_def split: if_splits option.splits dest!: sb_grow_Some)
  then show ?thesis
    using reserve_Ret(1-3) [OF assms] assms(2)
    by (cases r) (auto simp: zereh_sb_appendn_def store_at_def stored_def Let_def min_def)
qed

lemma appendn_Ret:
  assumes "sb_ok sb" and "zereh_sb_appendn mem sb t = Ret sb'"
  shows "sb_ok sb' \<and> sb_text sb' = sb_text sb @ t"
proof -
  obtain r where r: "zereh_sb_reserve mem sb (length t) = Ret r"
    using assms(2) by (cases "zereh_sb_reserve mem sb (length t)") (auto simp: zereh_sb_appendn_def)
  then show ?thesis
    using assms(2) appendn_cases [OF assms(1) r] stored_ok [OF assms(1) r] by (auto split: if_splits)
qed

lemma appendn_not:
  assumes "sb_ok sb" and "sb_len sb + length t < 2 ^ 63"
  shows "zereh_sb_appendn mem sb t \<noteq> Fault" "\<forall>n. mem n \<Longrightarrow> zereh_sb_appendn mem sb t \<noteq> Err"
proof -
  have "zereh_sb_appendn mem sb t = Ret (stored r t)" if r: "zereh_sb_reserve mem sb (length t) = Ret r" for r
    using appendn_cases [OF assms(1) r] reserve_Ret(5) [OF assms(1) r] assms(2) by simp
  then show "zereh_sb_appendn mem sb t \<noteq> Fault" "\<forall>n. mem n \<Longrightarrow> zereh_sb_appendn mem sb t \<noteq> Err"
    using reserve_not [OF assms, of mem]
    by (cases "zereh_sb_reserve mem sb (length t)"; simp add: zereh_sb_appendn_def)+
qed

lemma appendf_eq_appendn:
  assumes "sb_ok sb" and "sb_len sb + length t < 2 ^ 63" and "length t \<le> INT_MAX"
  shows "zereh_sb_appendf mem sb t = zereh_sb_appendn mem sb t"
proof (cases "zereh_sb_reserve mem sb (length t)")
  case (Ret r)
  note r = reserve_Ret [OF assms(1) Ret]
  have n: "sb_len sb + length t + 1 \<le> sb_cap r" using r(5) assms(2) by simp
  then have "sb_cap r + 2 ^ 64 - sb_len sb = sb_cap r - sb_len sb + 2 ^ 64" by simp
  then have room: "size_t (sb_cap r + 2 ^ 64 - sb_len sb) = sb_cap r - sb_len sb"
    using r(3) unfolding size_t_def by (metis diff_le_self le_less_trans mod_add_self2 mod_less)
  show ?thesis
    using Ret r n assms(2,3) appendn_cases [OF assms(1) Ret] room
    by (cases r) (auto simp: zereh_sb_appendf_def store_at_def stored_def Let_def min_def)
qed (use assms(3) in \<open>simp_all add: zereh_sb_appendn_def zereh_sb_appendf_def\<close>)

interpretation n_builder: text_builder "zereh_sb_appendn mem" sb_ok sb_text "\<forall>n. mem n"
    "\<lambda>sb t. sb_len sb + length t < 2 ^ 63" for mem
  by unfold_locales (fact appendn_not, metis appendn_Ret, fact appendn_not)

interpretation f_builder: text_builder "zereh_sb_appendf mem" sb_ok sb_text "\<forall>n. mem n"
    "\<lambda>sb t. sb_len sb + length t < 2 ^ 63 \<and> length t \<le> INT_MAX" for mem
  by unfold_locales (simp_all add: appendf_eq_appendn appendn_not, metis appendn_Ret)

lemma cres_bind_assoc: "cres_bind (cres_bind m f) g = cres_bind m (\<lambda>x. cres_bind (f x) g)"
  by (cases m) auto

lemma sb_init_ok: "0 < cap \<Longrightarrow> cap < 2 ^ 64 \<Longrightarrow> zereh_sb_init mem cap = Ret sb \<Longrightarrow> sb_ok sb \<and> sb_text sb = []"
  by (auto simp: zereh_sb_init_def sb_ok_def sb_text_def split: if_splits)

lemma sb_cstr_text:
  assumes "sb_ok sb" and "NUL \<notin> set (sb_text sb)"
  shows "sb_cstr sb = sb_text sb"
proof -
  let ?n = "sb_len sb" and ?d = "sb_data sb"
  have n: "?n < length ?d" "?d ! ?n = Some NUL" "None \<notin> set (take ?n ?d)" using assms(1) by (simp_all add: sb_ok_def)
  have ne: "c \<noteq> Some NUL" if "c \<in> set (take ?n ?d)" for c
    using that assms(2) by (force simp: sb_text_def)
  have "?d = take ?n ?d @ Some NUL # drop (Suc ?n) ?d"
    using n by (metis append_take_drop_id Cons_nth_drop_Suc)
  then obtain a b where d: "?d = a @ Some NUL # b" "take ?n ?d = a" by blast
  then have "takeWhile (\<lambda>c. c \<noteq> Some NUL) ?d = a"
    using ne by (simp add: takeWhile_append2)
  then show ?thesis using d(2) by (simp add: sb_cstr_def sb_text_def)
qed

text \<open>What a builder computation must satisfy: it appends \<open>t\<close>, or runs out of memory.\<close>

definition appends :: "(nat \<Rightarrow> bool) \<Rightarrow> zereh_sb \<Rightarrow> string \<Rightarrow> zereh_sb cres \<Rightarrow> bool" where
  "appends mem sb t res \<longleftrightarrow> (\<exists>sb'. res = Ret sb' \<and> sb_ok sb' \<and> sb_text sb' = sb_text sb @ t) \<or> res = Err \<and> \<not> (\<forall>n. mem n)"

abbreviation (input) room_for :: "zereh_sb \<Rightarrow> string \<Rightarrow> bool" where
  "room_for sb t \<equiv> length (sb_text sb) + length t < 2 ^ 63"

lemma appends_n: "sb_ok sb \<Longrightarrow> room_for sb t \<Longrightarrow> appends mem sb t (zereh_sb_appendn mem sb t)"
  using n_builder.app_cases [of sb t mem] by (simp add: appends_def length_sb_text)

lemma appends_f: "sb_ok sb \<Longrightarrow> room_for sb t \<Longrightarrow> length t \<le> INT_MAX \<Longrightarrow> appends mem sb t (zereh_sb_appendf mem sb t)"
  using f_builder.app_cases [of sb t mem] by (simp add: appends_def length_sb_text)

lemma appends_Ret: "sb_ok sb \<Longrightarrow> appends mem sb [] (Ret sb)"
  by (simp add: appends_def)

lemma appends_bind:
  assumes "appends mem sb t m"
    and "\<And>sb'. sb_ok sb' \<Longrightarrow> length (sb_text sb') = length (sb_text sb) + length t \<Longrightarrow> appends mem sb' u (f sb')"
  shows "appends mem sb (t @ u) (cres_bind m f)"
  using assms unfolding appends_def by fastforce

text \<open>A string-valued result: the text, or out of memory.\<close>

definition yields :: "(nat \<Rightarrow> bool) \<Rightarrow> string \<Rightarrow> string cres \<Rightarrow> bool" where
  "yields mem t res \<longleftrightarrow> res = Ret t \<or> res = Err \<and> \<not> (\<forall>n. mem n)"

lemma yields_build:
  assumes "0 < cap" and "cap < 2 ^ 64" and "NUL \<notin> set t"
    and "\<And>sb. sb_ok sb \<Longrightarrow> sb_text sb = [] \<Longrightarrow> appends mem sb t (f sb)"
  shows "yields mem t (cres_bind (zereh_sb_init mem cap) (\<lambda>sb. cres_bind (f sb) (\<lambda>sb. Ret (sb_cstr sb))))"
proof (cases "mem cap")
  case True
  then obtain sb where sb: "zereh_sb_init mem cap = Ret sb" by (simp add: zereh_sb_init_def)
  from sb_init_ok [OF assms(1,2) sb] have "sb_ok sb" "sb_text sb = []" by auto
  from assms(4) [OF this] \<open>sb_text sb = []\<close> consider sb' where "f sb = Ret sb'" "sb_ok sb'" "sb_text sb' = t"
    | "f sb = Err" "\<not> (\<forall>n. mem n)" unfolding appends_def by auto
  then show ?thesis
    by cases (use sb sb_cstr_text assms(3) in \<open>auto simp: yields_def\<close>)
qed (auto simp: zereh_sb_init_def yields_def)

lemma yields_bind:
  assumes "yields mem t m" and "appends mem sb u (f t)"
  shows "appends mem sb u (cres_bind m f)"
  using assms by (auto simp: yields_def appends_def)

section \<open>Escaping\<close>

text \<open>The reference: what a character becomes, and what a C compiler reads back.\<close>

definition esc :: "char \<Rightarrow> string" where
  "esc c = (if c = CHR 0x5C \<or> c = CHR 0x22 then [CHR 0x5C, c]
     else if c = CHR 0x0A then [CHR 0x5C, CHR ''n'']
     else if c = CHR 0x0D then [CHR 0x5C, CHR ''r'']
     else if c = CHR 0x09 then [CHR 0x5C, CHR ''t'']
     else [c])"

definition escaped :: "string \<Rightarrow> string" where
  "escaped t = concat (map esc t)"

text \<open>
  Reading a string literal after its opening quote: its characters and the text after its
  closing quote; \<open>None\<close> if it is not closed on its line or has an escape other than these.
\<close>

fun c_literal :: "string \<Rightarrow> (string \<times> string) option" where
  "c_literal [] = None"
| "c_literal (c # cs) =
     (if c = CHR 0x22 then Some ([], cs)
      else if c = CHR 0x0A then None
      else if c = CHR 0x5C then
        (case cs of [] \<Rightarrow> None
         | e # ds \<Rightarrow>
             (if e = CHR 0x5C \<or> e = CHR 0x22 then map_option (map_prod (Cons e) id) (c_literal ds)
              else if e = CHR ''n'' then map_option (map_prod (Cons (CHR 0x0A)) id) (c_literal ds)
              else if e = CHR ''r'' then map_option (map_prod (Cons (CHR 0x0D)) id) (c_literal ds)
              else if e = CHR ''t'' then map_option (map_prod (Cons (CHR 0x09)) id) (c_literal ds)
              else None))
      else map_option (map_prod (Cons c) id) (c_literal cs))"

lemma c_literal_esc: "c_literal (esc c @ cs) = map_option (map_prod (Cons c) id) (c_literal cs)"
  by (simp add: esc_def)

lemma c_literal_escaped: "c_literal (escaped t @ DQ @ rest) = Some (t, rest)"
proof (induction t)
  case (Cons c t)
  have "escaped (c # t) = esc c @ escaped t" by (simp add: escaped_def)
  then show ?case using Cons by (simp only: c_literal_esc append_assoc) simp
qed (simp add: escaped_def)

lemma NUL_escaped: "NUL \<notin> set t \<Longrightarrow> NUL \<notin> set (escaped t)"
  by (auto simp: escaped_def esc_def split: if_splits)

lemma length_escaped: "length (escaped t) \<le> 2 * length t"
  by (induction t) (auto simp: escaped_def esc_def)

lemma escape_loop_appends:
  "sb_ok sb \<Longrightarrow> room_for sb (escaped t) \<Longrightarrow> appends mem sb (escaped t) (escape_loop mem sb t)"
proof (induction t arbitrary: sb)
  case (Cons c t)
  have e: "escaped (c # t) = esc c @ escaped t" by (simp add: escaped_def)
  have "appends mem sb (esc c)
      (if c = CHR 0x5C \<or> c = CHR 0x22 then zereh_sb_appendf mem sb [CHR 0x5C, c]
        else if c = CHR 0x0A then zereh_sb_appendn mem sb [CHR 0x5C, CHR ''n'']
        else if c = CHR 0x0D then zereh_sb_appendn mem sb [CHR 0x5C, CHR ''r'']
        else if c = CHR 0x09 then zereh_sb_appendn mem sb [CHR 0x5C, CHR ''t'']
        else zereh_sb_appendn mem sb [c])"
    using Cons.prems e by (auto simp: esc_def intro!: appends_n appends_f)
  then show ?case
    unfolding e escape_loop.simps
    by (rule appends_bind) (use Cons e in simp)
qed (simp add: escaped_def appends_Ret)

lemma escape_yields:
  assumes "NUL \<notin> set t" and "length t < 2 ^ 62"
  shows "yields mem (escaped t) (zereh_escape_c_string mem t)"
  unfolding zereh_escape_c_string_def
  by (rule yields_build) (use assms length_escaped [of t] in \<open>auto simp: NUL_escaped intro!: escape_loop_appends\<close>)

section \<open>Substitution\<close>

text \<open>The reference: the pieces of the output.\<close>

function subst_all :: "string \<Rightarrow> string \<Rightarrow> string \<Rightarrow> string" where
  "subst_all cursor token replacement =
     (if token = [] then cursor else
      case strstr cursor token of
        Some n \<Rightarrow> take n cursor @ replacement @ subst_all (drop (n + length token) cursor) token replacement
      | None \<Rightarrow> cursor)"
  by pat_completeness auto
termination
proof (relation "measure (\<lambda>(cursor, token, replacement). length cursor)", goal_cases)
  case (2 cursor token replacement n)
  then show ?case using strstr_bound [of cursor token n] by (cases token) auto
qed simp

declare subst_all.simps [simp del]

lemma replace_loop_appends:
  "token \<noteq> [] \<Longrightarrow> sb_ok sb \<Longrightarrow> room_for sb (subst_all cursor token rep) \<Longrightarrow>
     appends mem sb (subst_all cursor token rep) (replace_loop mem sb cursor token rep)"
proof (induction cursor token rep arbitrary: sb rule: subst_all.induct)
  case (1 cursor token rep)
  show ?case
  proof (cases "strstr cursor token")
    case None
    then have "subst_all cursor token rep = cursor" by (subst subst_all.simps) simp
    then show ?thesis using 1 None by (subst replace_loop.simps) (simp add: appends_n)
  next
    case (Some n)
    let ?rest = "subst_all (drop (n + length token) cursor) token rep"
    have s: "subst_all cursor token rep = take n cursor @ rep @ ?rest"
      using 1(2) Some by (subst subst_all.simps) simp
    have "appends mem sb (take n cursor @ rep @ ?rest)
       (cres_bind (zereh_sb_appendn mem sb (take n cursor)) (\<lambda>sb.
          cres_bind (zereh_sb_appendn mem sb rep) (\<lambda>sb.
          replace_loop mem sb (drop (n + length token) cursor) token rep)))"
      using 1(2-4) unfolding s
      by (intro appends_bind appends_n 1(1) [OF 1(2) Some]) simp_all
    then show ?thesis
      using Some 1(2) unfolding s by (subst replace_loop.simps) simp
  qed
qed

text \<open>Whatever the sizes, a result is exact.\<close>

lemma replace_loop_Ret:
  "sb_ok sb \<Longrightarrow> replace_loop mem sb cursor token rep = Ret sb' \<Longrightarrow>
     sb_ok sb' \<and> sb_text sb' = sb_text sb @ subst_all cursor token rep"
proof (induction cursor token rep arbitrary: sb rule: subst_all.induct)
  case (1 cursor token rep)
  have t: "token \<noteq> []" using 1(3) by (auto simp: replace_loop.simps)
  show ?case
  proof (cases "strstr cursor token")
    case None
    then have "subst_all cursor token rep = cursor" by (subst subst_all.simps) simp
    then show ?thesis
      using 1(2,3) None t appendn_Ret [of sb mem cursor] by (subst (asm) replace_loop.simps) simp
  next
    case (Some n)
    obtain a b where a: "zereh_sb_appendn mem sb (take n cursor) = Ret a" "zereh_sb_appendn mem a rep = Ret b"
      "replace_loop mem b (drop (n + length token) cursor) token rep = Ret sb'"
      using 1(3) Some t by (subst (asm) replace_loop.simps) (auto simp: cres_bind_Ret_iff)
    have b: "sb_ok b" "sb_text b = sb_text sb @ take n cursor @ rep"
      using appendn_Ret [OF 1(2) a(1)] appendn_Ret [OF _ a(2)] by auto
    from 1(1) [OF t Some b(1) a(3)] show ?thesis
      using b(2) Some t by (subst subst_all.simps) simp
  qed
qed

lemma set_subst_all: "set (subst_all s token rep) \<subseteq> set s \<union> set rep"
proof (induction s token rep rule: subst_all.induct)
  case (1 s token rep)
  then show ?case
    by (subst subst_all.simps) (auto split: option.split dest!: in_set_takeD in_set_dropD; blast dest: in_set_dropD)
qed

lemma replace_all_yields:
  assumes "token \<noteq> []" and "NUL \<notin> set s" and "NUL \<notin> set rep"
    and "length s + length rep + 256 < 2 ^ 64" and "length (subst_all s token rep) < 2 ^ 63"
  shows "yields mem (subst_all s token rep) (zereh_replace_all mem s token rep)"
proof -
  have "NUL \<notin> set (subst_all s token rep)" using set_subst_all [of s token rep] assms by blast
  then show ?thesis
    using assms unfolding zereh_replace_all_def by (auto intro!: yields_build replace_loop_appends)
qed

text \<open>A builder of capacity 0, which \<open>size_t\<close> may give for an enormous text, never grows.\<close>

lemma appendn_cap0: "sb_cap sb = 0 \<Longrightarrow> sb_data sb = [] \<Longrightarrow> zereh_sb_appendn mem sb t = Fault"
proof -
  assume a: "sb_cap sb = 0" "sb_data sb = []"
  have "sb_grow 0 n \<noteq> Some c" if "0 < n" for n c
  proof
    assume g: "sb_grow 0 n = Some c"
    have "cap = 0 \<longrightarrow> n = 0" if "sb_grow cap n = Some c" for cap n c
      by (rule sb_grow.raw_induct [where P = "\<lambda>cap n c. cap = 0 \<longrightarrow> n = 0", OF _ that])
        (auto simp: size_t_def split: if_splits)
    then show False using g \<open>0 < n\<close> by blast
  qed
  then have "sb_grow 0 n = None" if "0 < n" for n using that by (cases "sb_grow 0 n") auto
  then have "zereh_sb_reserve mem sb (length t) \<in> {Ret sb, Fault}"
    using a by (auto simp: zereh_sb_reserve_def Let_def)
  then show ?thesis
    using a by (auto simp: zereh_sb_appendn_def store_at_def Let_def)
qed

lemma replace_all_Ret:
  assumes "zereh_replace_all mem s token rep = Ret out" and "NUL \<notin> set s" and "NUL \<notin> set rep"
  shows "out = subst_all s token rep"
proof -
  let ?cap = "size_t (length s + length rep + 256)"
  obtain sb sb' where sb: "zereh_sb_init mem ?cap = Ret sb" "replace_loop mem sb s token rep = Ret sb'" "out = sb_cstr sb'"
    using assms(1) by (auto simp: zereh_replace_all_def cres_bind_Ret_iff split: if_splits)
  have "?cap \<noteq> 0"
  proof
    assume "?cap = 0"
    then have "zereh_sb_appendn mem sb t = Fault" for t
      using sb(1) by (intro appendn_cap0) (auto simp: zereh_sb_init_def split: if_splits)
    then show False using sb(2) by (subst (asm) replace_loop.simps) (auto split: if_splits option.splits)
  qed
  then have i: "sb_ok sb" "sb_text sb = []" using sb_init_ok [OF _ _ sb(1)] by auto
  have "NUL \<notin> set (subst_all s token rep)" using set_subst_all [of s token rep] assms by blast
  then show ?thesis using replace_loop_Ret [OF i(1) sb(2)] i(2) sb(3) sb_cstr_text by simp
qed

text \<open>A replacement at most \<open>k\<close> times as long as the token makes the text at most \<open>k\<close> times as long.\<close>

lemma length_subst_all:
  assumes "0 < k"
  shows "length rep \<le> k * length token \<Longrightarrow> length (subst_all s token rep) \<le> k * length s"
proof (induction s token rep rule: subst_all.induct)
  case (1 s token rep)
  show ?case
  proof (cases "token = [] \<or> strstr s token = None")
    case True
    then have "subst_all s token rep = s" by (subst subst_all.simps) auto
    then show ?thesis using assms by simp
  next
    case False
    then obtain n where n: "token \<noteq> []" "strstr s token = Some n" by auto
    let ?rest = "subst_all (drop (n + length token) s) token rep"
    have b: "n + length token \<le> length s" using strstr_bound [OF n(2)] .
    have "length ?rest \<le> k * (length s - (n + length token))" using 1 n by simp
    moreover have "n \<le> k * n" using assms by simp
    ultimately have "n + length rep + length ?rest \<le> k * n + k * length token + k * (length s - (n + length token))"
      using 1(2) by linarith
    also have "... = k * length s" using b by (simp add: add_mult_distrib2 [symmetric])
    finally show ?thesis using n b by (subst subst_all.simps) simp
  qed
qed

lemma strstr_first:
  assumes "strstr (pre @ token @ post) token = Some (length pre)" and "token \<noteq> []"
  shows "subst_all (pre @ token @ post) token rep = pre @ rep @ subst_all post token rep"
  using assms by (subst subst_all.simps) simp

lemma subst_all_none: "strstr s token = None \<Longrightarrow> subst_all s token rep = s"
  by (subst subst_all.simps) simp

section \<open>Generated text\<close>

lemma digits_no_NUL: "NUL \<notin> set (dec_of n)"
  using dec_of_digits by (fastforce simp: c_isdigit_def)

lemma char_of_not_NUL: "0 < n \<Longrightarrow> n < 256 \<Longrightarrow> char_of (n::nat) \<noteq> NUL"
proof
  assume n: "0 < n" "n < 256" and "char_of n = NUL"
  then have "of_char (char_of n :: char) = (of_char NUL :: nat)" by simp
  with n show False by (simp add: of_char_of)
qed

lemma hex_no_NUL: "NUL \<notin> set (hex_of n)"
proof (induction n rule: hex_of.induct)
  case (1 n)
  have "NUL \<noteq> hex_digit d" if "d < 16" for d
    using that char_of_not_NUL [of "48 + d"] char_of_not_NUL [of "87 + d"] by (auto simp: hex_digit_def add.commute)
  then show ?case using 1 by (subst hex_of.simps) (auto simp: not_less)
qed

text \<open>The texts of a route with its strings escaped.\<close>

definition route_case_of :: "zereh_route \<Rightarrow> u32 \<Rightarrow> string" where
  "route_case_of r i = case_text (escaped (r_prefix r)) (escaped (r_suffix r)) r i"

definition fallback_of :: "zereh_route \<Rightarrow> u32 \<Rightarrow> string" where
  "fallback_of r i = fallback_text (escaped (r_domain r)) (escaped (r_prefix r)) (escaped (r_suffix r)) r i"

fun number_from :: "u32 \<Rightarrow> (zereh_route \<Rightarrow> u32 \<Rightarrow> string) \<Rightarrow> zereh_route list \<Rightarrow> string" where
  "number_from i f [] = []"
| "number_from i f (r # rs) = f r i @ number_from (i + 1) f rs"

lemma wf_no_NUL:
  assumes "route_wf r"
  shows "NUL \<notin> set (r_domain r)" "NUL \<notin> set (r_prefix r)" "NUL \<notin> set (r_suffix r)"
  using assms by (auto simp: route_wf_def route_buffers_ok_def fits_def)

lemma action_no_NUL: "NUL \<notin> set ind \<Longrightarrow> NUL \<notin> set (action_text ind r)"
  by (cases "r_target r") (auto simp: action_text_def digits_no_NUL)

lemma filters_no_NUL: "NUL \<notin> set p \<Longrightarrow> NUL \<notin> set s \<Longrightarrow> NUL \<notin> set (filters_text p s r i)"
  by (simp add: filters_text_def arg_line_def digits_no_NUL hex_no_NUL)

lemma route_texts_no_NUL:
  assumes "route_wf r"
  shows "NUL \<notin> set (route_case_of r i)" "NUL \<notin> set (fallback_of r i)"
  using wf_no_NUL [OF assms] NUL_escaped
  by (simp_all add: route_case_of_def case_text_def fallback_of_def fallback_text_def digits_no_NUL hex_pad_def
      hex_no_NUL action_no_NUL filters_no_NUL)

subsection \<open>Sizes\<close>

lemma length_dec_of: "n < 10 ^ Suc k \<Longrightarrow> length (dec_of n) \<le> Suc k"
proof (induction k arbitrary: n)
  case (Suc k)
  then have "length (dec_of (n div 10)) \<le> Suc k" by (simp add: less_mult_imp_div_less mult.commute)
  then show ?case by (subst dec_of.simps) simp
qed (simp add: dec_of.simps)

lemma length_hex_of: "n < 16 ^ Suc k \<Longrightarrow> length (hex_of n) \<le> Suc k"
proof (induction k arbitrary: n)
  case (Suc k)
  then have "length (hex_of (n div 16)) \<le> Suc k" by (simp add: less_mult_imp_div_less mult.commute)
  then show ?case by (subst hex_of.simps) simp
qed (simp add: hex_of.simps)

lemma length_hash_text: "length (hex_pad 16 (unat (h :: u64))) = 16"
proof -
  have "unat h < 16 ^ Suc 15" using unsigned_less [of h] by simp
  from length_hex_of [OF this] show ?thesis by (simp add: hex_pad_def)
qed

lemma length_u_text:
  assumes "LENGTH('a::len) \<le> 64"
  shows "length (dec_of (unat (w :: 'a word))) \<le> 20" "length (hex_of (unat w)) \<le> 16"
proof -
  have "unat w < 2 ^ LENGTH('a)" by (rule unsigned_less)
  also have "... \<le> 2 ^ 64" using assms by (intro power_increasing) simp_all
  finally have "unat w < 2 ^ 64" .
  then have "unat w < 10 ^ Suc 19" "unat w < 16 ^ Suc 15" by simp_all
  from length_dec_of [OF this(1)] length_hex_of [OF this(2)]
  show "length (dec_of (unat w)) \<le> 20" "length (hex_of (unat w)) \<le> 16" by simp_all
qed

lemmas length_u_texts =
  length_u_text [where 'a = 8, simplified] length_u_text [where 'a = 16, simplified]
  length_u_text [where 'a = 32, simplified]

lemma length_action: "length (action_text ind r) \<le> 2 * length ind + 120"
  using length_u_texts(3) [of "r_kernel_port r"] length_u_texts(5) [of "r_xsk_queue r"] length_u_texts(5) [of "r_prog_index r"]
  by (cases "r_target r") (simp_all add: action_text_def)

lemma length_arg_line: "length (arg_line t) = 39 + length t"
  by (simp add: arg_line_def)

lemma length_filters:
  assumes "route_wf r"
  shows "length (filters_text p s r i) \<le> length p + length s + 1500"
proof -
  have "length (r_prefix r) < 10 ^ Suc 19" "length (r_suffix r) < 10 ^ Suc 19"
    using assms by (auto simp: route_wf_def route_buffers_ok_def fits_def)
  from this [THEN length_dec_of] show ?thesis
    using length_u_texts(1) [of "r_min_labels r"] length_u_texts(1) [of "r_max_labels r"]
      length_u_texts(3) [of "r_qname_min_len r"] length_u_texts(3) [of "r_qname_max_len r"]
      length_u_texts(5) [of i] length_u_texts(6) [of "r_rrtype_mask r"]
      length_u_texts(1) [of "r_pow_difficulty r"] length_u_texts(3) [of "r_pow_time_window r"]
      length_u_texts(1) [of "r_bloom_enabled r"] length_u_texts(5) [of "r_bloom_size r"]
      length_u_texts(1) [of "r_bloom_hash_functions r"] length_u_texts(3) [of "r_bloom_time_window r"]
      length_u_texts(5) [of "r_rate_limit_qps r"]
    by (simp add: filters_text_def length_arg_line)
qed

text \<open>The text of a route has fewer than 3200 characters.\<close>

lemma length_route_texts:
  assumes "route_wf r"
  shows "length (route_case_of r i) < 3199" "length (fallback_of r i) < 3199"
proof -
  have l: "length (r_domain r) < 256" "length (r_prefix r) < 129" "length (r_suffix r) < 129"
    using assms by (auto simp: route_wf_def route_buffers_ok_def fits_def)
  then have "length (r_domain r) < 10 ^ Suc 19" by simp
  then have d: "length (dec_of (length (r_domain r))) \<le> 20" using length_dec_of by fastforce
  note e = length_escaped [of "r_domain r"] length_escaped [of "r_prefix r"] length_escaped [of "r_suffix r"]
  note f = length_filters [OF assms, of "escaped (r_prefix r)" "escaped (r_suffix r)" i]
  show "length (route_case_of r i) < 3199"
    using l e f length_action [of "replicate 8 (CHR '' '')" r] by (simp add: route_case_of_def case_text_def length_hash_text)
  show "length (fallback_of r i) < 3199"
    using l d e f length_action [of "replicate 12 (CHR '' '')" r] by (simp add: fallback_of_def fallback_text_def)
qed

lemma length_number_from:
  assumes "\<And>r i. route_wf r \<Longrightarrow> length (g r i) < n"
  shows "list_all route_wf rs \<Longrightarrow> length (number_from i g rs) \<le> n * length rs"
proof (induction rs arbitrary: i)
  case (Cons r rs)
  then show ?case using assms [of r i] by (simp add: add_mono)
qed simp

lemma length_header:
  assumes "config_wf cfg"
  shows "length (cases_header cfg) \<le> 1000"
proof -
  have "length (c_routes cfg) < 10 ^ Suc 19" "length (c_blacklist cfg) < 10 ^ Suc 19"
    using assms by (auto simp: config_wf_def config_buffers_ok_def)
  from this [THEN length_dec_of] show ?thesis by (simp add: cases_header_def)
qed

text \<open>The generated texts, and their sizes for an accepted configuration.\<close>

definition cases_of :: "zereh_config \<Rightarrow> string" where
  "cases_of cfg = cases_header cfg @ number_from 0 route_case_of (c_routes cfg)"

definition rules_of :: "zereh_config \<Rightarrow> string" where
  "rules_of cfg = number_from 0 fallback_of (c_routes cfg)"

lemma length_generated:
  assumes "config_wf cfg"
  shows "length (cases_of cfg) \<le> 3276776" "length (rules_of cfg) \<le> 3275776"
proof -
  have rs: "list_all route_wf (c_routes cfg)" "length (c_routes cfg) \<le> 1024" using assms by (simp_all add: config_wf_def)
  have "length (number_from 0 route_case_of (c_routes cfg)) \<le> 3199 * length (c_routes cfg)"
    "length (number_from 0 fallback_of (c_routes cfg)) \<le> 3199 * length (c_routes cfg)"
    using rs(1) length_route_texts by (auto intro!: length_number_from)
  then show "length (cases_of cfg) \<le> 3276776" "length (rules_of cfg) \<le> 3275776"
    using rs(2) length_header [OF assms] by (simp_all add: cases_of_def rules_of_def)
qed

subsection \<open>What the generator appends\<close>

lemma escape_wf_yields:
  assumes "route_wf r"
  shows "yields mem (escaped (r_domain r)) (zereh_escape_c_string mem (r_domain r))"
    "yields mem (escaped (r_prefix r)) (zereh_escape_c_string mem (r_prefix r))"
    "yields mem (escaped (r_suffix r)) (zereh_escape_c_string mem (r_suffix r))"
  using assms by (auto intro!: escape_yields simp: route_wf_def route_buffers_ok_def fits_def)

lemma append_route_case_appends:
  assumes "sb_ok sb" and "route_wf r" and "room_for sb (route_case_of r i)"
  shows "appends mem sb (route_case_of r i) (zereh_append_route_case mem sb r i)"
  unfolding zereh_append_route_case_def
  by (intro yields_bind [OF escape_wf_yields(2) [OF assms(2)]] yields_bind [OF escape_wf_yields(3) [OF assms(2)]])
    (use appends_f [OF assms(1,3)] length_route_texts(1) [OF assms(2), of i] in \<open>auto simp: route_case_of_def appends_def\<close>)

lemma append_fallback_appends:
  assumes "sb_ok sb" and "route_wf r" and "room_for sb (fallback_of r i)"
  shows "appends mem sb (fallback_of r i) (zereh_append_fallback_rule mem sb r i)"
  unfolding zereh_append_fallback_rule_def
  by (intro yields_bind [OF escape_wf_yields(1) [OF assms(2)]] yields_bind [OF escape_wf_yields(2) [OF assms(2)]]
      yields_bind [OF escape_wf_yields(3) [OF assms(2)]])
    (use appends_f [OF assms(1,3)] length_route_texts(2) [OF assms(2), of i] in \<open>auto simp: fallback_of_def appends_def\<close>)

lemma append_routes_appends:
  assumes "\<And>sb r i. sb_ok sb \<Longrightarrow> route_wf r \<Longrightarrow> room_for sb (txtf r i) \<Longrightarrow> appends mem sb (txtf r i) (app sb r i)"
    and "list_all route_wf rs" and "sb_ok sb" and "room_for sb (number_from i txtf rs)"
  shows "appends mem sb (number_from i txtf rs) (append_routes app sb i rs)"
  using assms(2-4)
proof (induction rs arbitrary: i sb)
  case (Cons r rs)
  then show ?case using assms(1) by (auto intro!: appends_bind)
qed (simp add: appends_Ret)

lemma number_from_no_NUL:
  "list_all route_wf rs \<Longrightarrow> (\<And>r i. route_wf r \<Longrightarrow> NUL \<notin> set (txtf r i)) \<Longrightarrow> NUL \<notin> set (number_from i txtf rs)"
  by (induction rs arbitrary: i) auto

lemma generated_no_NUL:
  "config_wf cfg \<Longrightarrow> NUL \<notin> set (cases_of cfg)" "config_wf cfg \<Longrightarrow> NUL \<notin> set (rules_of cfg)"
  using number_from_no_NUL [of "c_routes cfg"] route_texts_no_NUL
  by (simp_all add: cases_of_def rules_of_def config_wf_def cases_header_def digits_no_NUL)

lemma generate_route_cases_yields:
  assumes "config_wf cfg"
  shows "yields mem (cases_of cfg) (zereh_generate_route_cases mem cfg)"
proof -
  have wf: "list_all route_wf (c_routes cfg)" using assms by (simp add: config_wf_def)
  have "appends mem sb (cases_of cfg)
     (cres_bind (zereh_sb_appendf mem sb (cases_header cfg))
        (\<lambda>sb. append_routes (zereh_append_route_case mem) sb 0 (c_routes cfg)))" if sb: "sb_ok sb" "sb_text sb = []" for sb
    unfolding cases_of_def
  proof (rule appends_bind)
    show "appends mem sb (cases_header cfg) (zereh_sb_appendf mem sb (cases_header cfg))"
      using sb length_header [OF assms] by (intro appends_f) simp_all
    fix sb' assume sb': "sb_ok sb'" "length (sb_text sb') = length (sb_text sb) + length (cases_header cfg)"
    have room: "room_for sb' (number_from 0 route_case_of (c_routes cfg))"
      using sb' sb length_generated(1) [OF assms] by (simp add: cases_of_def)
    show "appends mem sb' (number_from 0 route_case_of (c_routes cfg))
        (append_routes (zereh_append_route_case mem) sb' 0 (c_routes cfg))"
      by (rule append_routes_appends [OF append_route_case_appends wf sb'(1) room])
  qed
  note app = this
  have "yields mem (cases_of cfg) (cres_bind (zereh_sb_init mem 2048) (\<lambda>sb. cres_bind
      (cres_bind (zereh_sb_appendf mem sb (cases_header cfg))
        (\<lambda>sb. append_routes (zereh_append_route_case mem) sb 0 (c_routes cfg))) (\<lambda>sb. Ret (sb_cstr sb))))"
    by (rule yields_build [OF _ _ generated_no_NUL(1) [OF assms]]) (simp_all only: app, simp_all)
  then show ?thesis unfolding zereh_generate_route_cases_def cres_bind_assoc .
qed

lemma generate_fallback_yields:
  assumes "config_wf cfg"
  shows "yields mem (rules_of cfg) (zereh_generate_fallback_rules mem cfg)"
proof -
  have wf: "list_all route_wf (c_routes cfg)" using assms by (simp add: config_wf_def)
  show ?thesis
    unfolding zereh_generate_fallback_rules_def
    by (intro yields_build generated_no_NUL(2) [OF assms])
      (use wf length_generated(2) [OF assms] in
        \<open>auto simp: rules_of_def intro!: append_routes_appends append_fallback_appends\<close>)
qed


section \<open>Reading the generated text back\<close>

text \<open>
  What a C compiler sees in the text: its lines, the literals of a call, one per line, and the
  value of a case label.
\<close>

fun split_lines :: "string \<Rightarrow> string list" where
  "split_lines [] = []"
| "split_lines (c # cs) =
     (if c = CHR 0x0A then [] # split_lines cs
      else case split_lines cs of [] \<Rightarrow> [[c]] | l # ls \<Rightarrow> (c # l) # ls)"

datatype c_arg = Lit string | Num nat | Var string

definition hex_digit_val :: "char \<Rightarrow> nat" where
  "hex_digit_val c = (if c_isdigit c then of_char c - 48 else of_char c - 87)"

definition hex_val :: "string \<Rightarrow> nat" where
  "hex_val ds = foldl (\<lambda>n c. 16 * n + hex_digit_val c) 0 ds"

definition read_arg :: "string \<Rightarrow> c_arg option" where
  "read_arg t = (
     if take 1 t = DQ then (case c_literal (tl t) of Some (s, []) \<Rightarrow> Some (Lit s) | _ \<Rightarrow> None)
     else if take 2 t = ''0x'' then Some (Num (hex_val (butlast (drop 2 t))))
     else if list_all c_isdigit t then Some (Num (digits_val t))
     else Some (Var t))"

text \<open>The 18 arguments of the call whose lines these are, and the lines that follow it.\<close>

definition read_call :: "string list \<Rightarrow> (c_arg option list \<times> string list) option" where
  "read_call ls = (case ls of
     call # rest \<Rightarrow>
       (if call = ''        if (!zereh_apply_app_filters(qmeta,'' \<and>
           take 2 (drop 18 rest) = [''            return XDP_DROP;'', ''        }'']
        then Some (map (\<lambda>l. read_arg (butlast (drop 37 l))) (take 17 rest) @
                   [read_arg (takeWhile c_isdigit (drop 37 (rest ! 17)))], drop 20 rest)
        else None)
   | [] \<Rightarrow> None)"

definition read_case :: "string \<Rightarrow> (nat \<times> c_arg option list \<times> string list) option" where
  "read_case t = (case split_lines t of
     label # ls \<Rightarrow>
       (if take 11 label = ''    case 0x'' \<and> drop 27 label = ''ULL:''
        then map_option (Pair (hex_val (take 16 (drop 11 label)))) (read_call ls) else None)
   | [] \<Rightarrow> None)"

text \<open>The arguments \<open>zereh_apply_app_filters\<close> has to be called with, after \<open>qmeta\<close>.\<close>

definition filter_args :: "zereh_route \<Rightarrow> u32 \<Rightarrow> c_arg list" where
  "filter_args r i = [
     Lit (r_prefix r), Num (length (r_prefix r)), Lit (r_suffix r), Num (length (r_suffix r)),
     Num (unat (r_min_labels r)), Num (unat (r_max_labels r)),
     Num (unat (r_qname_min_len r)), Num (unat (r_qname_max_len r)),
     Var ''route_hash'', Num (unat i), Num (unat (r_rrtype_mask r)),
     Num (unat (r_pow_difficulty r)), Num (unat (r_pow_time_window r)),
     Num (unat (r_bloom_enabled r)), Num (unat (r_bloom_size r)),
     Num (unat (r_bloom_hash_functions r)), Num (unat (r_bloom_time_window r)),
     Num (unat (r_rate_limit_qps r))]"

lemma split_lines_line: "CHR 0x0A \<notin> set l \<Longrightarrow> split_lines (l @ CHR 0x0A # rest) = l # split_lines rest"
  by (induction l) auto

lemma hex_val_snoc: "hex_val (ds @ [c]) = 16 * hex_val ds + hex_digit_val c"
  by (simp add: hex_val_def)

lemma hex_digit_val_digit: "d < 16 \<Longrightarrow> hex_digit_val (hex_digit d) = d"
  by (auto simp: hex_digit_val_def hex_digit_def c_isdigit_def of_char_of)

lemma hex_val_hex_of: "hex_val (hex_of n) = n"
proof (induction n rule: hex_of.induct)
  case (1 n)
  then show ?case
    by (subst hex_of.simps) (auto simp: hex_val_snoc hex_digit_val_digit, simp add: hex_val_def hex_digit_val_digit)
qed

lemma hex_val_zeros: "hex_val (replicate k (CHR ''0'') @ ds) = hex_val ds"
proof -
  have "foldl (\<lambda>n c. 16 * n + hex_digit_val c) 0 (replicate k (CHR ''0'')) = 0"
    by (induction k) (auto simp: hex_digit_val_def c_isdigit_def)
  then show ?thesis by (simp add: hex_val_def)
qed

lemma hex_val_pad: "hex_val (hex_pad w n) = n"
  by (simp add: hex_pad_def hex_val_zeros hex_val_hex_of)

lemma hex_of_chars: "\<forall>c \<in> set (hex_of n). 48 \<le> (of_char c :: nat)"
proof (induction n rule: hex_of.induct)
  case (1 n)
  have "48 \<le> (of_char (hex_digit d) :: nat)" if "d < 16" for d
    using that by (auto simp: hex_digit_def of_char_of)
  then show ?case using 1 by (subst hex_of.simps) (auto simp: not_less)
qed

lemma line_breaks_absent:
  "CHR 0x0A \<notin> set (dec_of n)" "CHR 0x0A \<notin> set (hex_of n)" "CHR 0x0A \<notin> set (escaped t)"
proof -
  show "CHR 0x0A \<notin> set (dec_of n)" using dec_of_digits by (fastforce simp: c_isdigit_def)
  show "CHR 0x0A \<notin> set (escaped t)" by (auto simp: escaped_def esc_def split: if_splits)
  show "CHR 0x0A \<notin> set (hex_of n)" using hex_of_chars [of n] by force
qed

lemma read_arg_dec: "read_arg (dec_of n) = Some (Num n)"
proof -
  obtain c cs where d: "dec_of n = c # cs" by (cases "dec_of n") auto
  have all: "list_all c_isdigit (dec_of n)" using dec_of_digits by (simp add: list_all_iff)
  have "take 1 (dec_of n) \<noteq> DQ" "take 2 (dec_of n) \<noteq> ''0x''"
    using all d by (auto simp: c_isdigit_def take_Cons split: nat.splits) (cases cs; auto simp: numeral_2_eq_2 c_isdigit_def)
  then show ?thesis using all by (simp add: read_arg_def digits_val_dec_of)
qed

lemma read_arg_hex: "read_arg (''0x'' @ hex_of n @ ''u'') = Some (Num n)"
  by (simp add: read_arg_def butlast_append hex_val_hex_of)

lemma read_arg_lit: "read_arg (DQ @ escaped t @ DQ) = Some (Lit t)"
  using c_literal_escaped [of t "[]"] by (simp add: read_arg_def)

lemma read_arg_var: "read_arg ''route_hash'' = Some (Var ''route_hash'')"
  by (simp add: read_arg_def c_isdigit_def)

lemma line_of: "CHR 0x0A \<notin> set l \<Longrightarrow> split_lines (l @ NL @ rest) = l # split_lines rest"
  using split_lines_line by simp

definition arg_text :: "string \<Rightarrow> string" where
  "arg_text t = replicate 37 (CHR '' '') @ t @ '',''"

lemma arg_line_lines:
  assumes "CHR 0x0A \<notin> set t"
  shows "split_lines (arg_line t @ rest) = arg_text t # split_lines rest"
proof -
  have "CHR 0x0A \<notin> set (arg_text t)" using assms by (simp add: arg_text_def)
  from line_of [OF this] show ?thesis by (simp add: arg_line_def arg_text_def)
qed

lemma arg_lines:
  "split_lines (arg_line (DQ @ escaped t @ DQ) @ rest) = arg_text (DQ @ escaped t @ DQ) # split_lines rest"
  "split_lines (arg_line (dec_of n) @ rest) = arg_text (dec_of n) # split_lines rest"
  "split_lines (arg_line ''route_hash'' @ rest) = arg_text ''route_hash'' # split_lines rest"
  "split_lines (arg_line (''0x'' @ hex_of n @ ''u'') @ rest) = arg_text (''0x'' @ hex_of n @ ''u'') # split_lines rest"
  by (rule arg_line_lines; simp add: line_breaks_absent)+

lemma arg_text_value: "butlast (drop 37 (arg_text t)) = t"
  by (simp add: arg_text_def butlast_append)

lemmas read_args = read_arg_dec read_arg_hex read_arg_lit read_arg_var

lemma takeWhile_digits: "takeWhile c_isdigit (dec_of n @ CHR '')'' # r) = dec_of n"
  using dec_of_digits [of n] by (simp add: takeWhile_append2 c_isdigit_def)

lemma call_lines:
  "split_lines (''        if (!zereh_apply_app_filters(qmeta,'' @ NL @ u) =
     ''        if (!zereh_apply_app_filters(qmeta,'' # split_lines u"
  "split_lines (''            return XDP_DROP;'' @ NL @ u) = ''            return XDP_DROP;'' # split_lines u"
  "split_lines (''        }'' @ NL @ u) = ''        }'' # split_lines u"
  by (rule line_of; simp)+

definition last_arg_text :: "string \<Rightarrow> string" where
  "last_arg_text t = replicate 37 (CHR '' '') @ t @ '')) {''"

lemma last_arg_lines:
  "split_lines (replicate 37 (CHR '' '') @ dec_of n @ '')) {'' @ NL @ u) = last_arg_text (dec_of n) # split_lines u"
  using line_of [of "last_arg_text (dec_of n)" u] by (simp add: line_breaks_absent last_arg_text_def)

lemma last_arg_value: "takeWhile c_isdigit (drop 37 (last_arg_text (dec_of n))) = dec_of n"
  by (simp add: last_arg_text_def takeWhile_digits)

lemma filters_text_reads:
  "read_call (split_lines (filters_text (escaped (r_prefix r)) (escaped (r_suffix r)) r i @ rest)) =
     Some (map Some (filter_args r i), split_lines rest)"
  unfolding filters_text_def append_assoc call_lines arg_lines last_arg_lines
  by (simp add: read_call_def arg_text_value last_arg_value read_arg_dec read_arg_var filter_args_def
      read_arg_hex [simplified] read_arg_lit [simplified])

lemma read_case_of:
  "read_case (route_case_of r i) =
     Some (unat (r_hash r), map Some (filter_args r i), split_lines (action_text (replicate 8 (CHR '' '')) r))"
proof -
  let ?l = "''    case 0x'' @ hex_pad 16 (unat (r_hash r)) @ ''ULL:''"
  have "CHR 0x0A \<notin> set ?l" by (simp add: hex_pad_def line_breaks_absent)
  from line_of [OF this] show ?thesis
    unfolding route_case_of_def case_text_def append_assoc read_case_def
    using filters_text_reads by (simp add: length_hash_text hex_val_pad)
qed

definition fallback_test :: string where
  "fallback_test = ''    if (zereh_match_suffix(qmeta->qname, qmeta->qname_len, '' @ DQ"

definition read_test :: "string \<Rightarrow> (string \<times> nat) option" where
  "read_test l = (if take (length fallback_test) l \<noteq> fallback_test then None else
     case c_literal (drop (length fallback_test) l) of
       Some (domain, rest) \<Rightarrow>
         if take 2 rest = '', '' \<and> dropWhile c_isdigit (drop 2 rest) = '')) {''
         then Some (domain, digits_val (takeWhile c_isdigit (drop 2 rest))) else None
     | None \<Rightarrow> None)"

definition read_fallback :: "string \<Rightarrow> ((string \<times> nat) option \<times> c_arg option list \<times> string list) option" where
  "read_fallback t = (case split_lines t of
     test # ls \<Rightarrow> map_option (Pair (read_test test)) (read_call ls)
   | [] \<Rightarrow> None)"

lemma dropWhile_digits: "dropWhile c_isdigit (dec_of n @ CHR '')'' # r) = CHR '')'' # r"
  using dec_of_digits [of n] by (simp add: dropWhile_append3 c_isdigit_def)

lemma split_lines_append: "split_lines (t @ NL @ u) = split_lines (t @ NL) @ split_lines u"
proof (induction t)
  case (Cons c t)
  have "split_lines (t @ NL) \<noteq> []" by (cases t) (auto split: list.split)
  then show ?case using Cons by (auto split: list.split)
qed simp

lemma action_text_line: "\<exists>b. action_text ind r = b @ NL"
proof -
  have "action_text ind r \<noteq> [] \<and> last (action_text ind r) = CHR 0x0A"
    by (cases "r_target r") (simp_all add: action_text_def)
  then show ?thesis by (metis append_butlast_last_id)
qed

lemma read_fallback_of:
  "read_fallback (fallback_of r i) =
     Some (Some (r_domain r, length (r_domain r)), map Some (filter_args r i),
           split_lines (action_text (replicate 12 (CHR '' '')) r) @ [''    }''])"
proof -
  let ?rest = "'', '' @ dec_of (length (r_domain r)) @ '')) {''"
  let ?l = "fallback_test @ escaped (r_domain r) @ DQ @ ?rest"
  have "CHR 0x0A \<notin> set ?l" by (simp add: fallback_test_def line_breaks_absent)
  from line_of [OF this] have "read_fallback (?l @ NL @ u) = map_option (Pair (read_test ?l)) (read_call (split_lines u))" for u
    by (simp add: read_fallback_def)
  moreover have "read_test ?l = Some (r_domain r, length (r_domain r))"
    using c_literal_escaped [of "r_domain r" ?rest]
    by (simp add: read_test_def takeWhile_digits dropWhile_digits digits_val_dec_of)
  moreover have "split_lines (action_text (replicate 12 (CHR '' '')) r @ ''    }'' @ NL) =
      split_lines (action_text (replicate 12 (CHR '' '')) r) @ [''    }'']"
  proof -
    obtain b where b: "action_text (replicate 12 (CHR '' '')) r = b @ NL" using action_text_line by blast
    have "split_lines (''    }'' @ NL) = [''    }'']" by simp
    then show ?thesis using split_lines_append [of b "''    }'' @ NL"] b by simp
  qed
  ultimately show ?thesis
    using filters_text_reads [of r i "action_text (replicate 12 (CHR '' '')) r @ ''    }'' @ NL"]
    by (simp add: fallback_of_def fallback_text_def fallback_test_def)
qed

lemma number_from_concat:
  "number_from i f rs = concat (map (\<lambda>j. f (rs ! j) (i + of_nat j)) [0..<length rs])"
proof (induction rs arbitrary: i)
  case (Cons r rs)
  have "map (\<lambda>j. f ((r # rs) ! j) (i + of_nat j)) [0..<length (r # rs)] =
      f r i # map (\<lambda>j. f (rs ! j) (i + 1 + of_nat j)) [0..<length rs]"
    by (simp only: length_Cons map_upt_Suc) (simp add: add.assoc)
  then show ?case using Cons by simp
qed simp

text \<open>The substitutions on texts, without buffers.\<close>

definition subst_chain :: "string \<Rightarrow> (string \<times> string) list \<Rightarrow> string" where
  "subst_chain t subs = foldl (\<lambda>t (token, rep). subst_all t token rep) t subs"

text \<open>Whatever the sizes, a result is exact.\<close>

lemma replace_chain_Ret:
  "NUL \<notin> set t \<Longrightarrow> \<forall>(token, rep) \<in> set subs. NUL \<notin> set rep \<Longrightarrow> replace_chain mem t subs = Ret out \<Longrightarrow>
     out = subst_chain t subs"
proof (induction subs arbitrary: t)
  case (Cons s subs)
  obtain token rep where s: "s = (token, rep)" by (cases s)
  obtain u where u: "zereh_replace_all mem t token rep = Ret u" "replace_chain mem u subs = Ret out"
    using Cons.prems(3) s by (auto simp: cres_bind_Ret_iff)
  have "u = subst_all t token rep" using replace_all_Ret [OF u(1)] Cons.prems s by auto
  moreover then have "NUL \<notin> set u" using set_subst_all [of t token rep] Cons.prems s by auto
  ultimately show ?case using Cons u(2) s by (simp add: subst_chain_def)
qed (simp add: subst_chain_def)

text \<open>Texts that stay small enough on the way: \<open>ks\<close> bounds the growth of each substitution.\<close>

lemma replace_chain_yields:
  assumes "list_all2 (\<lambda>(token, rep) k. token \<noteq> [] \<and> NUL \<notin> set rep \<and> 0 < k \<and> length rep \<le> k * length token \<and>
      length rep < 2 ^ 62) subs ks"
    and "NUL \<notin> set t" and "length t * prod_list ks < 2 ^ 62"
  shows "yields mem (subst_chain t subs) (replace_chain mem t subs)"
  using assms
proof (induction subs ks arbitrary: t rule: list_all2_induct)
  case (Cons s subs k ks)
  obtain token rep where s: "s = (token, rep)" by (cases s)
  let ?u = "subst_all t token rep"
  have h: "token \<noteq> []" "NUL \<notin> set rep" "0 < k" "length rep \<le> k * length token" "length rep < 2 ^ 62"
    using Cons.hyps(1) s by auto
  have u: "length ?u \<le> k * length t" using length_subst_all [OF h(3,4)] .
  have p: "0 < prod_list ks" using Cons.hyps(2) by (induction rule: list_all2_induct) auto
  have m: "length ?u * prod_list ks < 2 ^ 62" "length t < 2 ^ 62" "length ?u < 2 ^ 62"
  proof -
    have "length ?u * prod_list ks \<le> length t * prod_list (k # ks)" using mult_le_mono1 [OF u] by (simp add: ac_simps)
    moreover have "length t * 1 \<le> length t * prod_list (k # ks)" using p h(3) by (intro mult_le_mono2) simp
    moreover have "length ?u * 1 \<le> length ?u * prod_list ks" using p by (intro mult_le_mono2) simp
    ultimately show "length ?u * prod_list ks < 2 ^ 62" "length t < 2 ^ 62" "length ?u < 2 ^ 62" using Cons.prems(2) by linarith+
  qed
  have y: "yields mem ?u (zereh_replace_all mem t token rep)"
    using h m Cons.prems by (intro replace_all_yields) auto
  have "NUL \<notin> set ?u" using set_subst_all [of t token rep] Cons.prems h by auto
  then have "yields mem (subst_chain ?u subs) (replace_chain mem ?u subs)" using Cons.IH m by simp
  then show ?case using y s by (auto simp: yields_def subst_chain_def)
qed (simp add: subst_chain_def yields_def)

lemma constant_texts_no_NUL:
  "NUL \<notin> set (packet_size_str cfg)" "NUL \<notin> set (opcode_mask_str cfg)" "NUL \<notin> set (drop_truncated_str cfg)"
  "NUL \<notin> set (default_action_str cfg)" "NUL \<notin> set (inline_checksums_str cfg)" "NUL \<notin> set (hash_algo_str cfg)"
  "NUL \<notin> set (rate_state_entries_str cfg)"
proof -
  have sn: "NUL \<notin> set (snprintf_s n (dec_of k))" for n k using set_snprintf_s digits_no_NUL by blast
  show "NUL \<notin> set (packet_size_str cfg)" "NUL \<notin> set (opcode_mask_str cfg)" "NUL \<notin> set (rate_state_entries_str cfg)"
    unfolding packet_size_str_def opcode_mask_str_def rate_state_entries_str_def by (rule sn)+
qed (simp_all add: drop_truncated_str_def default_action_str_def inline_checksums_str_def hash_algo_str_def snprintf_s_fits)

text \<open>The constants are not longer than their placeholders.\<close>

lemma constant_texts_short:
  assumes "config_wf cfg"
  shows "length (packet_size_str cfg) \<le> 20" "length (opcode_mask_str cfg) \<le> 20" "length (drop_truncated_str cfg) \<le> 8"
    "length (default_action_str cfg) \<le> 8" "length (inline_checksums_str cfg) \<le> 8" "length (hash_algo_str cfg) \<le> 8"
    "length (rate_state_entries_str cfg) \<le> 16"
  using length_u_texts(5) [of "c_max_packet_size cfg"] length_u_texts(3) [of "c_allowed_opcode_mask cfg"]
  by (simp_all add: packet_size_str_def opcode_mask_str_def drop_truncated_str_def default_action_str_def
      inline_checksums_str_def hash_algo_str_def rate_state_entries_str_def snprintf_s_def)

text \<open>The source text a configuration and a template give: the placeholders replaced one after another.\<close>

definition source_of :: "zereh_config \<Rightarrow> string \<Rightarrow> string" where
  "source_of cfg template = subst_chain (cstr template) (substitutions cfg (cases_of cfg) (rules_of cfg))"

lemma chain_of_config_Ret:
  assumes "config_wf cfg" and "replace_chain mem (cstr template) (substitutions cfg (cases_of cfg) (rules_of cfg)) = Ret out"
  shows "out = source_of cfg template"
  unfolding source_of_def
  by (rule replace_chain_Ret [OF cstr_no_NUL _ assms(2)])
    (use generated_no_NUL [OF assms(1)] in \<open>simp add: substitutions_def constant_texts_no_NUL\<close>)

text \<open>For templates below 256 MiB no size wraps.\<close>

lemma chain_of_config_yields:
  assumes "config_wf cfg" and "length template < 2 ^ 28"
  shows "yields mem (source_of cfg template)
     (replace_chain mem (cstr template) (substitutions cfg (cases_of cfg) (rules_of cfg)))"
  unfolding source_of_def
proof (rule replace_chain_yields [where ks = "[2 ^ 17, 2 ^ 17, 1, 1, 1, 1, 1, 1, 1]"])
  show "list_all2 (\<lambda>(token, rep) k. token \<noteq> [] \<and> NUL \<notin> set rep \<and> 0 < k \<and> length rep \<le> k * length token \<and>
      length rep < 2 ^ 62) (substitutions cfg (cases_of cfg) (rules_of cfg)) [2 ^ 17, 2 ^ 17, 1, 1, 1, 1, 1, 1, 1]"
    using generated_no_NUL [OF assms(1)] length_generated [OF assms(1)] constant_texts_short [OF assms(1)]
    by (simp add: substitutions_def constant_texts_no_NUL)
  have "length (cstr template) \<le> length template" by (simp add: cstr_def length_takeWhile_le)
  then show "length (cstr template) * prod_list [2 ^ 17, 2 ^ 17, 1, 1, 1, 1, 1, 1, 1] < 2 ^ 62" using assms(2) by simp
qed (rule cstr_no_NUL)

lemma digits_val_u32: "10 < sz \<Longrightarrow> digits_val (snprintf_s sz (dec_of (unat (w :: u32)))) = unat w"
proof -
  assume "10 < sz"
  have "unat w < 2 ^ LENGTH(32)" by (rule unsigned_less)
  then have "unat w < 10 ^ Suc 9" by simp
  from length_dec_of [OF this] show ?thesis using \<open>10 < sz\<close> by (simp add: snprintf_s_fits digits_val_dec_of)
qed

section \<open>Filling in a template\<close>

text \<open>
  The specification of the generator: a template is text with holes, and each hole has one value,
  whatever the order in which the holes are filled. The names and values of the holes are written
  down here a second time, from the documentation of the template.
\<close>

datatype hole = Route_cases | Fallback_rules | Max_packet_size | Allowed_opcode_mask | Drop_truncated
  | Default_action | Inline_checksums | Hash_algo | Rate_state_entries

fun hole_name :: "hole \<Rightarrow> string" where
  "hole_name Route_cases = ''/*__ZEREH_ROUTE_CASES__*/''"
| "hole_name Fallback_rules = ''/*__ZEREH_FALLBACK_RULES__*/''"
| "hole_name Max_packet_size = ''__ZEREH_MAX_PACKET_SIZE__''"
| "hole_name Allowed_opcode_mask = ''__ZEREH_ALLOWED_OPCODE_MASK__''"
| "hole_name Drop_truncated = ''__ZEREH_DROP_TRUNCATED__''"
| "hole_name Default_action = ''__ZEREH_DEFAULT_ACTION__''"
| "hole_name Inline_checksums = ''__ZEREH_INLINE_CHECKSUMS__''"
| "hole_name Hash_algo = ''__ZEREH_HASH_ALGO__''"
| "hole_name Rate_state_entries = ''__ZEREH_RATE_STATE_ENTRIES__''"

fun hole_value :: "zereh_config \<Rightarrow> string \<Rightarrow> string \<Rightarrow> hole \<Rightarrow> string" where
  "hole_value cfg cases_text rules_text Route_cases = cases_text"
| "hole_value cfg cases_text rules_text Fallback_rules = rules_text"
| "hole_value cfg cases_text rules_text Max_packet_size = dec_of (unat (c_max_packet_size cfg))"
| "hole_value cfg cases_text rules_text Allowed_opcode_mask = dec_of (unat (c_allowed_opcode_mask cfg))"
| "hole_value cfg cases_text rules_text Drop_truncated = (if c_drop_truncated cfg = 0 then ''0'' else ''1'')"
| "hole_value cfg cases_text rules_text Default_action = (case c_default_action cfg of
     ZEREH_ACTION_PASS \<Rightarrow> ''XDP_PASS'' | ZEREH_ACTION_DROP \<Rightarrow> ''XDP_DROP'')"
| "hole_value cfg cases_text rules_text Inline_checksums = (if c_inline_checksums cfg = 0 then ''0'' else ''1'')"
| "hole_value cfg cases_text rules_text Hash_algo = (case c_hash_algo cfg of
     ZEREH_HASH_FNV1A \<Rightarrow> ''0'' | ZEREH_HASH_SIPHASH \<Rightarrow> ''1'')"
| "hole_value cfg cases_text rules_text Rate_state_entries = dec_of (max 1 (length (c_routes cfg)))"

text \<open>The text \<open>t0\<close>, a hole, a text, a hole, a text and so on, with \<open>w\<close> in the holes.\<close>

definition fill :: "(hole \<Rightarrow> string) \<Rightarrow> string \<Rightarrow> (hole \<times> string) list \<Rightarrow> string" where
  "fill w t0 ps = t0 @ concat (map (\<lambda>(h, t). w h @ t) ps)"

text \<open>
  The texts between the holes contain no placeholder, and the characters next to a hole are
  none of those placeholders are made of, as in \<open>xdp_template.c\<close>.
\<close>

definition token_chars :: string where
  "token_chars = ''ABCDEFGHIJKLMNOPQRSTUVWXYZ_/*''"

definition marker_free :: "string \<Rightarrow> bool" where
  "marker_free t \<longleftrightarrow> strstr t ''__ZEREH_'' = None"

definition before_hole :: "string \<Rightarrow> bool" where
  "before_hole t \<longleftrightarrow> t \<noteq> [] \<and> last t \<notin> set token_chars \<and> NUL \<notin> set t \<and> marker_free t"

definition template_shape :: "string \<Rightarrow> (hole \<times> string) list \<Rightarrow> bool" where
  "template_shape t0 ps \<longleftrightarrow> before_hole t0 \<and> list_all (\<lambda>(h, t). before_hole t \<and> hd t \<notin> set token_chars) ps"

text \<open>No configured name or pattern contains a placeholder.\<close>

definition names_marker_free :: "zereh_config \<Rightarrow> bool" where
  "names_marker_free cfg \<longleftrightarrow>
     list_all (\<lambda>r. marker_free (r_domain r) \<and> marker_free (r_prefix r) \<and> marker_free (r_suffix r)) (c_routes cfg)"

subsection \<open>Searching across a separator\<close>

lemma strstr_sep:
  assumes "d \<notin> set token" and "token \<noteq> []"
  shows "strstr (u @ d # v) token =
    (case strstr u token of Some n \<Rightarrow> Some n | None \<Rightarrow> map_option (\<lambda>n. n + length u + 1) (strstr v token))"
proof (induction u)
  case Nil
  have "take (length token) (d # v) \<noteq> token" using assms by (cases token) auto
  then show ?case using assms(2) by (simp add: option.map_comp comp_def cong: map_option_cong)
next
  case (Cons c u)
  have "take (length token) (c # u @ d # v) = token \<longleftrightarrow> take (length token) (c # u) = token"
  proof (cases "length token \<le> length (c # u)")
    case False
    then have "d \<in> set (take (length token) (c # u @ d # v))" using assms(2) by (simp add: take_Cons' not_le)
    moreover have "length (take (length token) (c # u)) \<noteq> length token" using False by simp
    ultimately show ?thesis using assms(1) by metis
  next
    case True
    then show ?thesis by (metis append_Cons append_Nil2 diff_is_0_eq take0 take_append)
  qed
  then show ?case using Cons by (auto simp: option.map_comp comp_def split: option.split)
qed

lemma subst_all_Nil [simp]: "subst_all [] token rep = []"
  by (subst subst_all.simps) simp

lemma subst_all_sep:
  assumes "d \<notin> set token"
  shows "subst_all (u @ d # v) token rep = subst_all u token rep @ d # subst_all v token rep"
  using assms
proof (induction u token rep rule: subst_all.induct)
  case (1 u token rep)
  show ?case
  proof (cases "token = []")
    case True
    then show ?thesis by (simp add: subst_all.simps)
  next
    case False
    note sep = strstr_sep [OF 1(2) False, of u v]
    show ?thesis
    proof (cases "strstr u token")
      case None
      then have "subst_all u token rep = u" by (rule subst_all_none)
      then show ?thesis
        using sep None False by (subst (1 2) subst_all.simps) (simp split: option.split)
    next
      case (Some n)
      have "n + length token \<le> length u" using strstr_bound [OF Some] .
      then show ?thesis
        using sep Some False 1(1) [OF False Some 1(2)] by (subst (1 2) subst_all.simps) simp
    qed
  qed
qed

lemma subst_all_append:
  assumes "x \<noteq> [] \<and> last x \<notin> set token \<or> y \<noteq> [] \<and> hd y \<notin> set token"
  shows "subst_all (x @ y) token rep = subst_all x token rep @ subst_all y token rep"
  using assms
proof
  assume x: "x \<noteq> [] \<and> last x \<notin> set token"
  then have "x = butlast x @ [last x]" by simp
  then obtain b d where "x = b @ [d]" "d \<notin> set token" using x by metis
  then show ?thesis using subst_all_sep [of d token b y] subst_all_sep [of d token b "[]"] by simp
next
  assume y: "y \<noteq> [] \<and> hd y \<notin> set token"
  then obtain d v where "y = d # v" "d \<notin> set token" by (cases y) auto
  then show ?thesis using subst_all_sep [of d token x v] subst_all_sep [of d token "[]" v] by simp
qed

lemma strstr_None_iff: "strstr s token = None \<longleftrightarrow> (\<forall>p q. s \<noteq> p @ token @ q)"
proof (induction s)
  case (Cons c s)
  have "take (length token) (c # s) = token \<longleftrightarrow> (\<exists>q. c # s = token @ q)"
    by (metis append_eq_conv_conj append_take_drop_id)
  then show ?case using Cons by (auto simp: Cons_eq_append_conv)
qed auto

lemma marker_freeI: "CHR ''Z'' \<notin> set t \<Longrightarrow> marker_free t"
  by (auto simp: marker_free_def strstr_None_iff)

lemma marker_free_append:
  assumes "marker_free x" and "marker_free y" and "x \<noteq> []" and "last x \<notin> set token_chars"
  shows "marker_free (x @ y)"
proof -
  have x: "x = butlast x @ [last x]" using assms(3) by simp
  have d: "last x \<notin> set ''__ZEREH_''" using assms(4) by (auto simp: token_chars_def)
  have "strstr (butlast x) ''__ZEREH_'' = None"
    using strstr_sep [OF d, of "butlast x" "[]"] x assms(1) by (auto simp: marker_free_def split: option.splits)
  then show ?thesis
    using strstr_sep [OF d, of "butlast x" y] x assms(2)
    by (metis append_Cons append_Nil append_assoc list.distinct(1) marker_free_def option.map(1) option.simps(4))
qed

subsection \<open>The generated texts contain no placeholder\<close>

lemma Z_absent: "CHR ''Z'' \<notin> set (dec_of n)" "CHR ''Z'' \<notin> set (hex_of n)"
proof -
  show "CHR ''Z'' \<notin> set (dec_of n)" using dec_of_digits by (fastforce simp: c_isdigit_def)
  show "CHR ''Z'' \<notin> set (hex_of n)"
  proof (induction n rule: hex_of.induct)
    case (1 n)
    have "of_char (hex_digit d) \<noteq> (90 :: nat)" if "d < 16" for d
      using that by (auto simp: hex_digit_def of_char_of)
    moreover have "of_char (CHR ''Z'') = (90 :: nat)" by simp
    ultimately have "CHR ''Z'' \<noteq> hex_digit d" if "d < 16" for d using that by metis
    then show ?case using 1 by (subst hex_of.simps) (auto simp: not_less)
  qed
qed

lemma take_escaped:
  "CHR 0x5C \<notin> set m \<Longrightarrow> take (length m) (escaped t) = m \<Longrightarrow> take (length m) t = m"
proof (induction m arbitrary: t)
  case (Cons x m)
  then obtain c t' where t: "t = c # t'" by (cases t) (auto simp: escaped_def)
  have e: "escaped t = esc c @ escaped t'" by (simp add: escaped_def t)
  have "esc c = [c] \<or> (\<exists>y. esc c = [CHR 0x5C, y])" by (simp add: esc_def)
  then consider "esc c = [c]" | y where "esc c = [CHR 0x5C, y]" by blast
  then show ?case
  proof cases
    case 1
    then show ?thesis using Cons.prems Cons.IH [of t'] unfolding e by (simp add: t)
  next
    case 2
    then show ?thesis using Cons.prems unfolding e by simp
  qed
qed simp

lemma marker_free_escaped: "marker_free t \<Longrightarrow> marker_free (escaped t)"
  unfolding marker_free_def
proof (induction t)
  case (Cons c t)
  have e: "escaped (c # t) = esc c @ escaped t" by (simp add: escaped_def)
  have t: "strstr t ''__ZEREH_'' = None" "take (length ''__ZEREH_'') (c # t) \<noteq> ''__ZEREH_''"
    using Cons.prems by (auto split: if_splits)
  then have "take (length ''__ZEREH_'') (escaped (c # t)) \<noteq> ''__ZEREH_''"
    using take_escaped [of "''__ZEREH_''" "c # t"] by auto
  then show ?case using Cons.IH [OF t(1)] unfolding e by (auto simp: esc_def split: if_splits)
qed (simp add: escaped_def)

text \<open>Two literals in a text without \<open>Z\<close>.\<close>

lemma marker_free_literal:
  assumes "CHR ''Z'' \<notin> set a" and "marker_free p" and "marker_free y"
  shows "marker_free (a @ DQ @ p @ DQ @ y)"
proof -
  have "marker_free (a @ DQ)" using assms(1) by (intro marker_freeI) simp
  moreover have "marker_free (p @ DQ @ y)"
  proof (cases "p = []")
    case True
    then show ?thesis using marker_free_append [OF _ assms(3), of DQ] by (simp add: marker_freeI token_chars_def)
  next
    case False
    have "strstr (p @ CHR 0x22 # y) ''__ZEREH_'' = None"
      using assms(2,3) by (subst strstr_sep) (simp_all add: marker_free_def)
    then show ?thesis by (simp add: marker_free_def)
  qed
  ultimately show ?thesis
    using marker_free_append [of "a @ DQ" "p @ DQ @ y"] by (simp add: token_chars_def)
qed

lemma Z_action: "CHR ''Z'' \<notin> set (action_text (replicate n (CHR '' '')) r)"
  by (cases "r_target r") (auto simp: action_text_def Z_absent)

lemma marker_free_filters:
  assumes "marker_free (r_prefix r)" and "marker_free (r_suffix r)" and "CHR ''Z'' \<notin> set a" and "CHR ''Z'' \<notin> set b"
  shows "marker_free (a @ filters_text (escaped (r_prefix r)) (escaped (r_suffix r)) r i @ b)"
proof -
  let ?x = "''        if (!zereh_apply_app_filters(qmeta,'' @ NL @ replicate 37 (CHR '' '')"
  let ?y = "'','' @ NL @ arg_line (dec_of (length (r_prefix r))) @ replicate 37 (CHR '' '')"
  let ?z = "'','' @ NL @ arg_line (dec_of (length (r_suffix r))) @ arg_line (u_text (r_min_labels r)) @
     arg_line (u_text (r_max_labels r)) @ arg_line (u_text (r_qname_min_len r)) @ arg_line (u_text (r_qname_max_len r)) @
     arg_line ''route_hash'' @ arg_line (u_text i) @ arg_line (''0x'' @ hex_of (unat (r_rrtype_mask r)) @ ''u'') @
     arg_line (u_text (r_pow_difficulty r)) @ arg_line (u_text (r_pow_time_window r)) @
     arg_line (u_text (r_bloom_enabled r)) @ arg_line (u_text (r_bloom_size r)) @
     arg_line (u_text (r_bloom_hash_functions r)) @ arg_line (u_text (r_bloom_time_window r)) @
     replicate 37 (CHR '' '') @ u_text (r_rate_limit_qps r) @ '')) {'' @ NL @
     ''            return XDP_DROP;'' @ NL @ ''        }'' @ NL"
  have eq: "a @ filters_text (escaped (r_prefix r)) (escaped (r_suffix r)) r i @ b =
      (a @ ?x) @ DQ @ escaped (r_prefix r) @ DQ @ ?y @ DQ @ escaped (r_suffix r) @ DQ @ (?z @ b)"
    unfolding filters_text_def arg_line_def [of "DQ @ _ @ DQ"] append_assoc ..
  have x: "CHR ''Z'' \<notin> set (a @ ?x)" using assms(3) by simp
  have y: "CHR ''Z'' \<notin> set ?y" by (simp add: arg_line_def Z_absent)
  have "CHR ''Z'' \<notin> set (?z @ b)" using assms(4) by (simp add: arg_line_def Z_absent)
  from marker_free_literal [OF x marker_free_escaped [OF assms(1)] marker_free_literal [OF y marker_free_escaped [OF assms(2)]
      marker_freeI [OF this]]]
  show ?thesis unfolding eq .
qed

lemma marker_free_route_texts:
  assumes "marker_free (r_domain r)" and "marker_free (r_prefix r)" and "marker_free (r_suffix r)"
  shows "marker_free (route_case_of r i)" "marker_free (fallback_of r i)"
proof -
  show "marker_free (route_case_of r i)"
    using marker_free_filters [OF assms(2,3), of "''    case 0x'' @ hex_pad 16 (unat (r_hash r)) @ ''ULL:'' @ NL"
        "action_text (replicate 8 (CHR '' '')) r" i] Z_action
    by (simp add: route_case_of_def case_text_def hex_pad_def Z_absent)
  have "marker_free ((CHR '','' # '' '' @ dec_of (length (r_domain r)) @ '')) {'' @ NL) @
      filters_text (escaped (r_prefix r)) (escaped (r_suffix r)) r i @
      (action_text (replicate 12 (CHR '' '')) r @ ''    }'' @ NL))"
    using Z_action by (intro marker_free_filters assms) (simp_all add: Z_absent)
  from marker_free_literal [OF _ marker_free_escaped [OF assms(1)] this,
      of "''    if (zereh_match_suffix(qmeta->qname, qmeta->qname_len, ''"]
  show "marker_free (fallback_of r i)" by (simp add: fallback_of_def fallback_text_def)
qed

lemma route_texts_end:
  "route_case_of r i \<noteq> []" "last (route_case_of r i) = CHR 0x0A"
  "fallback_of r i \<noteq> []" "last (fallback_of r i) = CHR 0x0A"
proof -
  obtain b where "action_text (replicate 8 (CHR '' '')) r = b @ NL" using action_text_line by blast
  then show "route_case_of r i \<noteq> []" "last (route_case_of r i) = CHR 0x0A"
    by (simp_all add: route_case_of_def case_text_def)
  show "fallback_of r i \<noteq> []" "last (fallback_of r i) = CHR 0x0A"
    by (simp_all add: fallback_of_def fallback_text_def)
qed

lemma marker_free_number_from:
  assumes "\<And>r i. r \<in> set rs \<Longrightarrow> marker_free (g r i) \<and> g r i \<noteq> [] \<and> last (g r i) = CHR 0x0A"
  shows "marker_free (number_from i g rs)"
  using assms
proof (induction rs arbitrary: i)
  case (Cons r rs)
  have "marker_free (number_from (i + 1) g rs)" using Cons by simp
  then show ?case using Cons.prems [of r i] by (auto intro!: marker_free_append simp: token_chars_def)
qed (simp add: marker_freeI)

lemma marker_free_generated:
  assumes "names_marker_free cfg"
  shows "marker_free (cases_of cfg)" "marker_free (rules_of cfg)"
proof -
  have r: "marker_free (route_case_of r i)" "marker_free (fallback_of r i)" if "r \<in> set (c_routes cfg)" for r i
    using assms that by (auto simp: names_marker_free_def list_all_iff intro!: marker_free_route_texts)
  have "marker_free (number_from 0 route_case_of (c_routes cfg))" "marker_free (rules_of cfg)"
    unfolding rules_of_def using r route_texts_end by (auto intro!: marker_free_number_from)
  moreover have "marker_free (cases_header cfg)" by (rule marker_freeI) (simp add: cases_header_def Z_absent)
  moreover have "cases_header cfg \<noteq> []" "last (cases_header cfg) = CHR 0x0A" by (simp_all add: cases_header_def)
  ultimately show "marker_free (cases_of cfg)" "marker_free (rules_of cfg)"
    unfolding cases_of_def by (auto intro!: marker_free_append simp: token_chars_def)
qed

subsection \<open>Replacing one placeholder after another fills the holes\<close>

lemma subst_fill:
  assumes "set token \<subseteq> set token_chars" and "\<And>t. marker_free t \<Longrightarrow> strstr t token = None"
  shows "template_shape t0 ps \<Longrightarrow> subst_all (fill w t0 ps) token rep = fill (\<lambda>h. subst_all (w h) token rep) t0 ps"
proof (induction ps arbitrary: t0)
  case Nil
  then show ?case using assms(2) by (simp add: fill_def subst_all_none template_shape_def before_hole_def)
next
  case (Cons p ps)
  obtain h t where p: "p = (h, t)" by (cases p)
  have sh: "before_hole t0" "before_hole t" "hd t \<notin> set token_chars" "template_shape t ps"
    using Cons.prems p by (auto simp: template_shape_def)
  have f: "fill v t0 (p # ps) = t0 @ v h @ fill v t ps" for v by (simp add: fill_def p)
  have "fill w t ps \<noteq> []" "hd (fill w t ps) = hd t" using sh(2) by (auto simp: fill_def before_hole_def)
  then have "subst_all (w h @ fill w t ps) token rep = subst_all (w h) token rep @ subst_all (fill w t ps) token rep"
    using sh(3) assms(1) by (intro subst_all_append) auto
  moreover have "subst_all (t0 @ w h @ fill w t ps) token rep = subst_all t0 token rep @ subst_all (w h @ fill w t ps) token rep"
    using sh(1) assms(1) by (intro subst_all_append) (auto simp: before_hole_def)
  moreover have "subst_all t0 token rep = t0"
    using sh(1) assms(2) by (simp add: before_hole_def subst_all_none)
  ultimately show ?case using Cons.IH [OF sh(4)] by (simp add: f)
qed

text \<open>What \<open>subst_fill\<close> and the values need of a placeholder.\<close>

definition placeholder :: "string \<Rightarrow> bool" where
  "placeholder token \<longleftrightarrow> set token \<subseteq> set token_chars \<and> (\<exists>a b. token = a @ ''__ZEREH_'' @ b)"

lemma marker_free_token: "placeholder token \<Longrightarrow> marker_free t \<Longrightarrow> strstr t token = None"
  unfolding placeholder_def marker_free_def strstr_None_iff by (metis append_assoc)

lemma subst_chain_fill:
  "template_shape t0 ps \<Longrightarrow> \<forall>(token, rep) \<in> set subs. placeholder token \<Longrightarrow>
     subst_chain (fill w t0 ps) subs = fill (\<lambda>h. subst_chain (w h) subs) t0 ps"
proof (induction subs arbitrary: w)
  case (Cons s subs)
  obtain token rep where s: "s = (token, rep)" by (cases s)
  have "subst_all (fill w t0 ps) token rep = fill (\<lambda>h. subst_all (w h) token rep) t0 ps"
    using Cons.prems s marker_free_token by (intro subst_fill) (auto simp: placeholder_def)
  then show ?case using Cons s by (simp add: subst_chain_def)
qed (simp add: subst_chain_def)

lemma subst_chain_free:
  "marker_free t \<Longrightarrow> \<forall>(token, rep) \<in> set subs. placeholder token \<Longrightarrow> subst_chain t subs = t"
  by (induction subs) (auto simp: subst_chain_def subst_all_none marker_free_token)

lemma placeholder_name: "placeholder (hole_name h)"
proof -
  have "hole_name h = ''/*'' @ ''__ZEREH_'' @ drop 10 (hole_name h) \<or> hole_name h = [] @ ''__ZEREH_'' @ drop 8 (hole_name h)"
    by (cases h) simp_all
  moreover have "set (hole_name h) \<subseteq> set token_chars" by (cases h) (simp_all add: token_chars_def)
  ultimately show ?thesis unfolding placeholder_def by blast
qed

text \<open>No placeholder is part of another.\<close>

lemma names_apart: "h \<noteq> h' \<Longrightarrow> strstr (hole_name h) (hole_name h') = None"
  by (cases h; cases h'; simp)

lemma subst_all_self: "token \<noteq> [] \<Longrightarrow> subst_all token token rep = rep"
  by (subst subst_all.simps) (cases token; simp)

text \<open>The constants, with their buffers.\<close>

lemma constant_values:
  assumes "config_wf cfg"
  shows "packet_size_str cfg = hole_value cfg cs rs Max_packet_size"
    "opcode_mask_str cfg = hole_value cfg cs rs Allowed_opcode_mask"
    "drop_truncated_str cfg = hole_value cfg cs rs Drop_truncated"
    "default_action_str cfg = hole_value cfg cs rs Default_action"
    "inline_checksums_str cfg = hole_value cfg cs rs Inline_checksums"
    "hash_algo_str cfg = hole_value cfg cs rs Hash_algo"
    "rate_state_entries_str cfg = hole_value cfg cs rs Rate_state_entries"
proof -
  have n: "length (c_routes cfg) < 10 ^ Suc 3" using assms by (simp add: config_wf_def)
  have "length (dec_of (max 1 (length (c_routes cfg)))) \<le> 4"
    using n length_dec_of [of "max 1 (length (c_routes cfg))" 3] by simp
  moreover have "(if c_routes cfg \<noteq> [] then length (c_routes cfg) else 1) = max 1 (length (c_routes cfg))"
    by (cases "c_routes cfg") auto
  ultimately show "rate_state_entries_str cfg = hole_value cfg cs rs Rate_state_entries"
    by (simp add: rate_state_entries_str_def snprintf_s_fits)
qed (use length_u_texts(5) [of "c_max_packet_size cfg"] length_u_texts(3) [of "c_allowed_opcode_mask cfg"] in
    \<open>auto simp: packet_size_str_def opcode_mask_str_def drop_truncated_str_def default_action_str_def
      inline_checksums_str_def hash_algo_str_def snprintf_s_fits split: zereh_default_action.split zereh_hash_algorithm.split\<close>)

lemma hole_value_free:
  assumes "marker_free cs" and "marker_free rs"
  shows "marker_free (hole_value cfg cs rs h)"
  using assms by (cases h)
    (auto intro!: marker_freeI simp: Z_absent split: zereh_default_action.split zereh_hash_algorithm.split)

text \<open>The table of the generator is the specification's.\<close>

definition holes :: "hole list" where
  "holes = [Route_cases, Fallback_rules, Max_packet_size, Allowed_opcode_mask, Drop_truncated,
     Default_action, Inline_checksums, Hash_algo, Rate_state_entries]"

lemma substitutions_eq:
  "config_wf cfg \<Longrightarrow> substitutions cfg cs rs = map (\<lambda>h. (hole_name h, hole_value cfg cs rs h)) holes"
  unfolding substitutions_def holes_def using constant_values [of cfg cs rs] by simp

lemma hole_chain:
  assumes "\<And>h. marker_free (v h)"
  shows "h \<in> set hs \<Longrightarrow> subst_chain (hole_name h) (map (\<lambda>h. (hole_name h, v h)) hs) = v h"
proof (induction hs)
  case (Cons h' hs)
  have ne: "hole_name h \<noteq> []" by (cases h) simp_all
  show ?case
  proof (cases "h' = h")
    case True
    then have "subst_chain (hole_name h) (map (\<lambda>h. (hole_name h, v h)) (h' # hs)) =
        subst_chain (v h) (map (\<lambda>h. (hole_name h, v h)) hs)"
      using subst_all_self [OF ne] by (simp add: subst_chain_def)
    also have "... = v h" using placeholder_name assms by (intro subst_chain_free) auto
    finally show ?thesis .
  next
    case False
    then show ?thesis
      using Cons names_apart [of h h'] by (simp add: subst_chain_def subst_all_none)
  qed
qed simp

lemma fill_no_NUL: "template_shape t0 ps \<Longrightarrow> NUL \<notin> set (fill hole_name t0 ps)"
proof -
  have "NUL \<notin> set (hole_name h)" for h by (cases h) simp_all
  then show "template_shape t0 ps \<Longrightarrow> NUL \<notin> set (fill hole_name t0 ps)"
    by (auto simp: fill_def template_shape_def before_hole_def list_all_iff)
qed

lemma source_of_fill:
  assumes "config_wf cfg" and "names_marker_free cfg" and "template_shape t0 ps"
  shows "source_of cfg (fill hole_name t0 ps) = fill (hole_value cfg (cases_of cfg) (rules_of cfg)) t0 ps"
proof -
  have "cstr (fill hole_name t0 ps) = fill hole_name t0 ps"
    using fill_no_NUL [OF assms(3)] by (auto simp: cstr_def takeWhile_eq_all_conv)
  moreover have "h \<in> set holes" for h by (cases h) (simp_all add: holes_def)
  moreover note hole_value_free [OF marker_free_generated [OF assms(2)], THEN hole_chain]
  moreover have "subst_chain (fill hole_name t0 ps) (map (\<lambda>h. (hole_name h, v h)) holes) =
      fill (\<lambda>h. subst_chain (hole_name h) (map (\<lambda>h. (hole_name h, v h)) holes)) t0 ps" for v
    using placeholder_name by (intro subst_chain_fill assms(3)) auto
  ultimately show ?thesis
    by (simp add: source_of_def substitutions_eq [OF assms(1)])
qed

section \<open>Properties\<close>

definition sample_gen_config :: zereh_config where
  "sample_gen_config = zereh_config_init_defaults\<lparr>c_routes := [sample_route]\<rparr>"

lemma sample_gen_config_wf: "config_wf sample_gen_config"
  using init_defaults_buffers_ok
  by (simp add: sample_gen_config_def sample_route_def config_wf_def config_buffers_ok_def
      route_wf_def route_buffers_ok_def route_limits_ok_def fits_def zereh_config_init_defaults_def)

text \<open>
  (C31) The string builder of the generator is memory safe and exact for texts below
  \<open>2 ^ 63\<close> characters, with sizes that wrap at 64 bits: on a well-formed builder (terminated,
  its text defined, its capacity the size of its buffer) the doubling loop of
  \<open>zereh_sb_reserve\<close> ends, no store is outside the buffer, and appending either appends exactly
  the text and keeps the builder well-formed or fails because memory ran out. Formatted
  appending does the same, but fails for a text longer than \<open>INT_MAX\<close>.
\<close>

theorem builder_append_exact:
  assumes "sb_ok sb" and "sb_len sb + length t < 2 ^ 63"
  shows "(\<exists>cap. sb_grow (sb_cap sb) (sb_len sb + length t + 1) = Some cap) \<and>
    ((\<exists>sb'. zereh_sb_appendn mem sb t = Ret sb' \<and> sb_ok sb' \<and> sb_text sb' = sb_text sb @ t) \<or>
     zereh_sb_appendn mem sb t = Err \<and> \<not> (\<forall>n. mem n)) \<and>
    zereh_sb_appendf mem sb t = (if length t \<le> 2147483647 then zereh_sb_appendn mem sb t else Err)"
proof (intro conjI)
  show "\<exists>cap. sb_grow (sb_cap sb) (sb_len sb + length t + 1) = Some cap"
    using assms by (intro sb_grow_spec) (auto simp: sb_ok_def)
  show "zereh_sb_appendf mem sb t = (if length t \<le> 2147483647 then zereh_sb_appendn mem sb t else Err)"
    using appendf_eq_appendn [OF assms] by (simp add: zereh_sb_appendf_def)
qed (use n_builder.app_cases [of sb t mem] assms in auto)

theorem builder_append_exact_witness:
  "let sb = \<lparr>sb_data = [Some CHR ''a'', Some NUL], sb_len = 1, sb_cap = 2\<rparr> in sb_ok sb \<and>
     (\<exists>sb'. zereh_sb_appendf (\<lambda>n. True) sb ''bcd'' = Ret sb' \<and> sb_ok sb' \<and> sb_text sb' = ''abcd'')"
proof -
  let ?sb = "\<lparr>sb_data = [Some CHR ''a'', Some NUL], sb_len = 1, sb_cap = 2\<rparr>"
  have ok: "sb_ok ?sb" by (simp add: sb_ok_def)
  have "sb_len ?sb + length ''bcd'' < 2 ^ 63" by simp
  from builder_append_exact [OF ok this, of "\<lambda>n. True"] ok show ?thesis by (auto simp: sb_text_def Let_def)
qed

text \<open>
  (C30) Escaping round trip: the escaped text between two quotes is one C string literal
  denoting the original text, whatever characters it has (quotes, backslashes and line breaks
  included), so no configured string can end its literal in the generated source early. The
  text has fewer than \<open>2 ^ 62\<close> characters, so that the sizes do not wrap at 64 bits.
\<close>

theorem escape_roundtrip:
  assumes "NUL \<notin> set t" and "length t < 2 ^ 62"
  shows "(\<exists>e. zereh_escape_c_string mem t = Ret e \<and> (\<forall>rest. c_literal (e @ DQ @ rest) = Some (t, rest))) \<or>
    zereh_escape_c_string mem t = Err \<and> \<not> (\<forall>n. mem n)"
  using escape_yields [OF assms(1,2), of mem] c_literal_escaped unfolding yields_def by blast

theorem escape_roundtrip_witness:
  "\<exists>e. zereh_escape_c_string (\<lambda>n. True) [CHR 0x22, CHR ''a'', CHR 0x5C, CHR 0x0A] = Ret e \<and>
     c_literal (e @ DQ @ '', 4'') = Some ([CHR 0x22, CHR ''a'', CHR 0x5C, CHR 0x0A], '', 4'')"
  using escape_roundtrip [of "[CHR 0x22, CHR ''a'', CHR 0x5C, CHR 0x0A]" "\<lambda>n. True"] by auto

text \<open>
  (C28) The route cases the generator emits are, route by route, what the data plane has to
  run: for every route of an accepted configuration there is one piece of text, whose case
  label is the route's hash, whose call of \<open>zereh_apply_app_filters\<close> has exactly the
  route's parameters and its index as arguments, and whose remaining lines are the action of
  its target; nothing else follows the header.
\<close>

theorem route_cases_faithful:
  assumes "config_wf cfg"
  shows "\<exists>pieces. length pieces = length (c_routes cfg) \<and>
    (\<forall>j < length (c_routes cfg). let r = c_routes cfg ! j in
       read_case (pieces ! j) = Some (unat (r_hash r), map Some (filter_args r (of_nat j)),
         split_lines (action_text (replicate 8 (CHR '' '')) r))) \<and>
    (zereh_generate_route_cases mem cfg = Ret (cases_header cfg @ concat pieces) \<or>
     zereh_generate_route_cases mem cfg = Err \<and> \<not> (\<forall>n. mem n))"
proof -
  let ?p = "map (\<lambda>j. route_case_of (c_routes cfg ! j) (of_nat j)) [0..<length (c_routes cfg)]"
  have "number_from 0 route_case_of (c_routes cfg) = concat ?p" by (simp add: number_from_concat)
  then show ?thesis
    using generate_route_cases_yields [OF assms, of mem]
    by (intro exI [of _ ?p]) (auto simp: cases_of_def yields_def read_case_of Let_def)
qed

theorem route_cases_faithful_witness:
  "\<exists>piece. read_case piece = Some (unat (r_hash sample_route), map Some (filter_args sample_route 0),
       [''        return zereh_route_kernel_space(iph, udp, bpf_htons(5302), 0);'']) \<and>
     zereh_generate_route_cases (\<lambda>n. True) sample_gen_config = Ret (cases_header sample_gen_config @ piece)"
proof -
  have c: "c_routes sample_gen_config = [sample_route]" by (simp add: sample_gen_config_def)
  have a: "split_lines (action_text (replicate 8 (CHR '' '')) sample_route) =
      [''        return zereh_route_kernel_space(iph, udp, bpf_htons(5302), 0);'']"
  proof -
    have "dec_of 5302 = ''5302''" by (simp add: dec_of.simps) code_simp
    moreover have "replicate 8 (CHR '' '') = ''        ''" by (simp add: numeral_eq_Suc)
    ultimately show ?thesis by (simp add: sample_route_def action_text_def)
  qed
  from route_cases_faithful [OF sample_gen_config_wf, of "\<lambda>n. True"] obtain ps where
    "length ps = 1" "read_case (ps ! 0) = Some (unat (r_hash sample_route), map Some (filter_args sample_route 0),
         split_lines (action_text (replicate 8 (CHR '' '')) sample_route))"
    "zereh_generate_route_cases (\<lambda>n. True) sample_gen_config = Ret (cases_header sample_gen_config @ concat ps)"
    by (auto simp: c Let_def)
  moreover then have "concat ps = ps ! 0" by (cases ps) auto
  ultimately show ?thesis using a by (intro exI [of _ "ps ! 0"]) simp
qed

text \<open>
  (C29) Likewise for the fallback rules: one \<open>if\<close> per route, in order, testing the suffix
  match with the route's domain and its length, applying the route's filters and ending in
  its action.
\<close>

theorem fallback_rules_faithful:
  assumes "config_wf cfg"
  shows "\<exists>pieces. length pieces = length (c_routes cfg) \<and>
    (\<forall>j < length (c_routes cfg). let r = c_routes cfg ! j in
       read_fallback (pieces ! j) = Some (Some (r_domain r, length (r_domain r)), map Some (filter_args r (of_nat j)),
         split_lines (action_text (replicate 12 (CHR '' '')) r) @ [''    }''])) \<and>
    (zereh_generate_fallback_rules mem cfg = Ret (concat pieces) \<or>
     zereh_generate_fallback_rules mem cfg = Err \<and> \<not> (\<forall>n. mem n))"
proof -
  let ?p = "map (\<lambda>j. fallback_of (c_routes cfg ! j) (of_nat j)) [0..<length (c_routes cfg)]"
  have "number_from 0 fallback_of (c_routes cfg) = concat ?p" by (simp add: number_from_concat)
  then show ?thesis
    using generate_fallback_yields [OF assms, of mem]
    by (intro exI [of _ ?p]) (auto simp: rules_of_def yields_def read_fallback_of Let_def)
qed

theorem fallback_rules_faithful_witness:
  "\<exists>piece. map_option fst (read_fallback piece) = Some (Some (''ab.c'', 4)) \<and>
     zereh_generate_fallback_rules (\<lambda>n. True) sample_gen_config = Ret piece"
proof -
  have c: "c_routes sample_gen_config = [sample_route]" by (simp add: sample_gen_config_def)
  have d: "r_domain sample_route = ''ab.c''" by (simp add: sample_route_def)
  from fallback_rules_faithful [OF sample_gen_config_wf, of "\<lambda>n. True"] obtain ps where
    "length ps = 1" "map_option fst (read_fallback (ps ! 0)) = Some (Some (''ab.c'', 4))"
    "zereh_generate_fallback_rules (\<lambda>n. True) sample_gen_config = Ret (concat ps)"
    by (auto simp: c d Let_def)
  moreover then have "concat ps = ps ! 0" by (cases ps) auto
  ultimately show ?thesis by (intro exI [of _ "ps ! 0"]) simp
qed

text \<open>
  (C27) The whole generator: from a template made of texts and placeholders it writes, to the
  configured path, the same texts with every placeholder replaced by its value: the generated
  route cases and fallback rules, and the seven constants of the configuration. The order in
  which the code replaces them does not matter as long as no configured name contains a
  placeholder. It fails only when memory runs out or the file cannot be written, and for a
  template below 256 MiB it ends without a store outside a buffer.
\<close>

theorem generated_source_exact:
  assumes "config_wf cfg" and "names_marker_free cfg" and "template_shape t0 ps"
    and "read_file (c_template_path cfg) = Some (fill hole_name t0 ps)" and "length (fill hole_name t0 ps) < 2 ^ 28"
  shows "case zereh_generate_xdp_source mem read_file write_file cfg of
      Ret (path, text) \<Rightarrow> path = c_generated_source cfg \<and>
        (\<exists>cs rs. zereh_generate_route_cases mem cfg = Ret cs \<and> zereh_generate_fallback_rules mem cfg = Ret rs \<and>
           text = fill (hole_value cfg cs rs) t0 ps)
    | Err \<Rightarrow> \<not> (\<forall>n. mem n) \<or>
        (\<exists>cs rs. zereh_generate_route_cases mem cfg = Ret cs \<and> zereh_generate_fallback_rules mem cfg = Ret rs \<and>
           \<not> write_file (c_generated_source cfg) (fill (hole_value cfg cs rs) t0 ps))
    | Fault \<Rightarrow> False"
proof -
  note src = source_of_fill [OF assms(1-3)]
  note y = generate_route_cases_yields [OF assms(1), of mem] generate_fallback_yields [OF assms(1), of mem]
    chain_of_config_yields [OF assms(1,5), of mem]
  show ?thesis
  proof (cases "\<forall>n. mem n")
    case True
    then show ?thesis using y src assms(4) by (simp add: yields_def zereh_generate_xdp_source_def)
  next
    case False
    then show ?thesis using y src assms(4) by (auto simp: yields_def zereh_generate_xdp_source_def)
  qed
qed

text \<open>A template with two constants and the route cases.\<close>

theorem generated_source_exact_witness:
  "\<exists>cs. zereh_generate_route_cases (\<lambda>n. True) sample_gen_config = Ret cs \<and>
     zereh_generate_xdp_source (\<lambda>n. True)
       (\<lambda>p. Some ''size __ZEREH_MAX_PACKET_SIZE__; algo (__ZEREH_HASH_ALGO__u) { /*__ZEREH_ROUTE_CASES__*/ }'')
       (\<lambda>p t. True) sample_gen_config =
     Ret (''build/xdp/router_generated.c'', ''size 1400; algo (0u) { '' @ cs @ '' }'')"
proof -
  let ?ps = "[(Max_packet_size, ''; algo (''), (Hash_algo, ''u) { ''), (Route_cases, '' }'')]"
  let ?t = "''size __ZEREH_MAX_PACKET_SIZE__; algo (__ZEREH_HASH_ALGO__u) { /*__ZEREH_ROUTE_CASES__*/ }''"
  have t: "fill hole_name ''size '' ?ps = ?t" by (simp add: fill_def)
  have sh: "template_shape ''size '' ?ps"
    by (simp add: template_shape_def before_hole_def marker_free_def token_chars_def)
  have nm: "names_marker_free sample_gen_config"
    by (simp add: names_marker_free_def marker_free_def sample_gen_config_def sample_route_def)
  have c: "c_generated_source sample_gen_config = ''build/xdp/router_generated.c''"
    "c_max_packet_size sample_gen_config = 1400" "c_hash_algo sample_gen_config = ZEREH_HASH_FNV1A"
    by (simp_all add: sample_gen_config_def zereh_config_init_defaults_def snprintf_s_fits)
  have d: "dec_of 1400 = ''1400''" by (simp add: dec_of.simps) code_simp
  have len: "length (fill hole_name ''size '' ?ps) < 2 ^ 28" unfolding t by simp
  from generated_source_exact [OF sample_gen_config_wf nm sh, of "\<lambda>p. Some ?t" "\<lambda>n. True" "\<lambda>p t. True"] len
  have "case zereh_generate_xdp_source (\<lambda>n. True) (\<lambda>p. Some ?t) (\<lambda>p t. True) sample_gen_config of
      Ret (path, text) \<Rightarrow> path = c_generated_source sample_gen_config \<and>
        (\<exists>cs rs. zereh_generate_route_cases (\<lambda>n. True) sample_gen_config = Ret cs \<and>
           zereh_generate_fallback_rules (\<lambda>n. True) sample_gen_config = Ret rs \<and>
           text = fill (hole_value sample_gen_config cs rs) ''size '' ?ps)
    | Err \<Rightarrow> False | Fault \<Rightarrow> False"
    unfolding t by (auto split: cres.splits)
  then show ?thesis
    by (auto simp: fill_def c d split: cres.splits)
qed

text \<open>
  (C32) The constants substituted into the template are those the data plane is meant to have:
  read as C literals they are the values of \<open>consts_of_config\<close>.
\<close>

theorem constants_faithful:
  assumes "config_wf cfg"
  shows "digits_val (packet_size_str cfg) = unat (k_max_packet_size (consts_of_config cfg)) \<and>
    digits_val (opcode_mask_str cfg) = unat (k_allowed_opcode_mask (consts_of_config cfg)) \<and>
    digits_val (drop_truncated_str cfg) = unat (k_drop_truncated (consts_of_config cfg)) \<and>
    digits_val (hash_algo_str cfg) = unat (k_hash_algo (consts_of_config cfg)) \<and>
    digits_val (rate_state_entries_str cfg) = unat (k_rate_state_entries (consts_of_config cfg)) \<and>
    k_default_action (consts_of_config cfg) = (if default_action_str cfg = ''XDP_DROP'' then XDP_DROP else XDP_PASS)"
proof -
  have flag: "digits_val (snprintf_s 8 ''1'') = 1" "digits_val (snprintf_s 8 ''0'') = 0"
    by (simp_all add: snprintf_s_fits digits_val_def)
  have "unat (ucast (c_allowed_opcode_mask cfg) :: u32) = unat (c_allowed_opcode_mask cfg)"
    by simp
  then have m: "digits_val (opcode_mask_str cfg) = unat (ucast (c_allowed_opcode_mask cfg) :: u32)"
    using digits_val_u32 [of 32 "ucast (c_allowed_opcode_mask cfg)"] by (simp add: opcode_mask_str_def)
  have n: "digits_val (snprintf_s 16 (dec_of n)) = unat (of_nat n :: u32)" if "n \<le> 1024" for n
    using digits_val_u32 [of 16 "of_nat n"] that by (simp add: unat_of_nat)
  have r: "length (c_routes cfg) \<le> 1024" using assms by (simp add: config_wf_def)
  have "digits_val (rate_state_entries_str cfg) = unat (k_rate_state_entries (consts_of_config cfg))"
    using n [OF r] n [of 1] by (simp add: rate_state_entries_str_def consts_of_config_def)
  then show ?thesis
    using m by (simp add: consts_of_config_def packet_size_str_def digits_val_u32 drop_truncated_str_def hash_algo_str_def
      default_action_str_def flag)
qed

theorem constants_faithful_witness:
  "digits_val (packet_size_str sample_gen_config) = unat (k_max_packet_size (consts_of_config sample_gen_config)) \<and>
   digits_val (rate_state_entries_str sample_gen_config) = 1"
  using constants_faithful [OF sample_gen_config_wf] by (simp add: consts_of_config_def sample_gen_config_def)

end
