(* ===== verification/Zereh_Yaml.thy ===== *)
theory Zereh_Yaml
  imports Zereh_Hash
begin

text \<open>
  The configuration parser (\<open>control/yaml_parser.c\<close>).

  libyaml is a parameter: a loaded document is the function \<open>yaml_document_get_node\<close>
  from node numbers to nodes, with the root node; a node is a scalar with its bytes, a
  sequence of node numbers or a mapping of pairs of node numbers. A null pointer is
  \<open>None\<close>. The scalar a field is read from is the C string at the node's value, so it
  ends at the first NUL.

  A parser of one value returns \<open>None\<close> for \<open>-1\<close>. A parser that fills a structure is a
  list of statements (\<open>run_steps\<close>) over it, each of which may end the function with an
  error; \<open>set_field\<close> is \<open>if (v && parse (v, &field) != 0) return -1;\<close> and
  \<open>copy_field\<close> is \<open>if (v && zereh_scalar (v)) snprintf (field, sizeof field, "%s", ...);\<close>.

  The lemmas show that an accepted configuration is well-formed (\<open>config_wf\<close>), has a
  route, and that each route's hash is the one of its domain under the configured
  algorithm; the integer parsers satisfy the contract of the locale \<open>uint_parser\<close>.
\<close>

section \<open>Definitions\<close>

subsection \<open>Documents\<close>

datatype yaml_node =
    YAML_SCALAR_NODE string
  | YAML_SEQUENCE_NODE "int list"
  | YAML_MAPPING_NODE "(int \<times> int) list"

type_synonym yaml_doc = "int \<Rightarrow> yaml_node option"

fun pairs_get :: "yaml_doc \<Rightarrow> (int \<times> int) list \<Rightarrow> string \<Rightarrow> yaml_node option" where
  "pairs_get doc [] key = None"
| "pairs_get doc ((ki, vi) # ps) key =
     (case (doc ki, doc vi) of
        (Some (YAML_SCALAR_NODE k), Some v) \<Rightarrow>
          if length k = length key \<and> k = key then Some v else pairs_get doc ps key
      | _ \<Rightarrow> pairs_get doc ps key)"

definition zereh_map_get :: "yaml_doc \<Rightarrow> yaml_node option \<Rightarrow> string \<Rightarrow> yaml_node option" where
  "zereh_map_get doc node key = (case node of
     Some (YAML_MAPPING_NODE ps) \<Rightarrow> pairs_get doc ps key | _ \<Rightarrow> None)"

text \<open>\<open>v = zereh_map_get (k1); if (!v) v = zereh_map_get (k2);\<close>\<close>

definition map_get2 :: "yaml_doc \<Rightarrow> yaml_node option \<Rightarrow> string \<Rightarrow> string \<Rightarrow> yaml_node option" where
  "map_get2 doc node k1 k2 = (case zereh_map_get doc node k1 of None \<Rightarrow> zereh_map_get doc node k2 | Some v \<Rightarrow> Some v)"

definition zereh_scalar :: "yaml_node option \<Rightarrow> string option" where
  "zereh_scalar node = (case node of Some (YAML_SCALAR_NODE v) \<Rightarrow> Some (cstr v) | _ \<Rightarrow> None)"

definition is_mapping :: "yaml_node option \<Rightarrow> bool" where
  "is_mapping node = (case node of Some (YAML_MAPPING_NODE ps) \<Rightarrow> True | _ \<Rightarrow> False)"

subsection \<open>Values\<close>

definition zereh_parse_u32 :: "yaml_node option \<Rightarrow> u32 option" where
  "zereh_parse_u32 node = (case zereh_scalar node of None \<Rightarrow> None
     | Some s \<Rightarrow> (case strtoul10 s of (v, end_text) \<Rightarrow>
         if end_text = s \<or> end_text \<noteq> [] \<or> v > 0xffffffff then None else Some (ucast v)))"

definition zereh_parse_u16 :: "yaml_node option \<Rightarrow> u16 option" where
  "zereh_parse_u16 node = (case zereh_parse_u32 node of None \<Rightarrow> None
     | Some tmp \<Rightarrow> if tmp > 0xffff then None else Some (ucast tmp))"

definition zereh_parse_u8 :: "yaml_node option \<Rightarrow> u8 option" where
  "zereh_parse_u8 node = (case zereh_parse_u32 node of None \<Rightarrow> None
     | Some tmp \<Rightarrow> if tmp > 0xff then None else Some (ucast tmp))"

definition zereh_parse_bool :: "yaml_node option \<Rightarrow> u8 option" where
  "zereh_parse_bool node = (case zereh_scalar node of None \<Rightarrow> None
     | Some s \<Rightarrow>
         if strcasecmp s ''true'' \<or> strcasecmp s ''yes'' \<or> strcasecmp s ''on'' \<or> s = ''1'' then Some 1
         else if strcasecmp s ''false'' \<or> strcasecmp s ''no'' \<or> strcasecmp s ''off'' \<or> s = ''0'' then Some 0
         else None)"

definition zereh_rrtype_to_mask :: "string option \<Rightarrow> u32" where
  "zereh_rrtype_to_mask rr = (case rr of None \<Rightarrow> 0
     | Some s \<Rightarrow> if strcasecmp s ''A'' then ZEREH_RRTYPE_A
                else if strcasecmp s ''AAAA'' then ZEREH_RRTYPE_AAAA
                else if strcasecmp s ''TXT'' then ZEREH_RRTYPE_TXT
                else if strcasecmp s ''ANY'' then ZEREH_RRTYPE_ANY
                else 0)"

definition zereh_parse_target :: "string \<Rightarrow> zereh_target_type option" where
  "zereh_parse_target s =
     (if strcasecmp s ''user_space'' then Some ZEREH_TARGET_USER_SPACE
      else if strcasecmp s ''kernel_space'' then Some ZEREH_TARGET_KERNEL_SPACE
      else if strcasecmp s ''xdp_prog'' then Some ZEREH_TARGET_XDP_PROG
      else None)"

definition zereh_parse_default_action :: "yaml_node option \<Rightarrow> zereh_default_action option" where
  "zereh_parse_default_action node = (case zereh_scalar node of None \<Rightarrow> None
     | Some s \<Rightarrow> if strcasecmp s ''pass'' \<or> strcasecmp s ''xdp_pass'' then Some ZEREH_ACTION_PASS
                else if strcasecmp s ''drop'' \<or> strcasecmp s ''xdp_drop'' then Some ZEREH_ACTION_DROP
                else None)"

definition zereh_parse_xdp_mode :: "yaml_node option \<Rightarrow> zereh_xdp_mode option" where
  "zereh_parse_xdp_mode node = (case zereh_scalar node of None \<Rightarrow> None
     | Some s \<Rightarrow> if strcasecmp s ''native'' \<or> strcasecmp s ''drv'' then Some ZEREH_XDP_MODE_NATIVE
                else if strcasecmp s ''skb'' \<or> strcasecmp s ''generic'' then Some ZEREH_XDP_MODE_SKB
                else if strcasecmp s ''offload'' \<or> strcasecmp s ''hw'' then Some ZEREH_XDP_MODE_OFFLOAD
                else None)"

definition zereh_parse_hash_algorithm :: "yaml_node option \<Rightarrow> zereh_config act" where
  "zereh_parse_hash_algorithm node cfg = (case zereh_scalar node of None \<Rightarrow> (cfg, False)
     | Some s \<Rightarrow>
         if strcasecmp s ''FNV-1a'' \<or> strcasecmp s ''fnv1a'' \<or> strcasecmp s ''fnv-1a''
         then (cfg\<lparr>c_hash_algo := ZEREH_HASH_FNV1A,
                   c_hash_algorithm := snprintf_s ZEREH_MAX_HASH_ALGO_LEN ''FNV-1a''\<rparr>, True)
         else if strcasecmp s ''SipHash'' \<or> strcasecmp s ''siphash'' \<or> strcasecmp s ''siphash24'' \<or>
                 strcasecmp s ''siphash-2-4''
         then (cfg\<lparr>c_hash_algo := ZEREH_HASH_SIPHASH,
                   c_hash_algorithm := snprintf_s ZEREH_MAX_HASH_ALGO_LEN ''SipHash''\<rparr>, True)
         else (cfg, False))"

fun rrtype_mask_loop :: "yaml_doc \<Rightarrow> int list \<Rightarrow> u32 \<Rightarrow> u32 option" where
  "rrtype_mask_loop doc [] out_mask = (if out_mask \<noteq> 0 then Some out_mask else None)"
| "rrtype_mask_loop doc (it # its) out_mask =
     (let rrmask = zereh_rrtype_to_mask (zereh_scalar (doc it)) in
      if rrmask = 0 then None else rrtype_mask_loop doc its (out_mask OR rrmask))"

definition zereh_parse_rrtype_mask :: "yaml_doc \<Rightarrow> yaml_node \<Rightarrow> u32 option" where
  "zereh_parse_rrtype_mask doc node = (case node of
     YAML_SCALAR_NODE v \<Rightarrow>
       (let rrmask = zereh_rrtype_to_mask (zereh_scalar (Some node)) in
        if rrmask = 0 then None else Some rrmask)
   | YAML_SEQUENCE_NODE its \<Rightarrow> rrtype_mask_loop doc its 0
   | _ \<Rightarrow> None)"

subsection \<open>Global lists\<close>

fun opcodes_loop :: "yaml_doc \<Rightarrow> int list \<Rightarrow> zereh_config act" where
  "opcodes_loop doc [] cfg =
     (if c_allowed_opcode_mask cfg = 0 then (cfg\<lparr>c_allowed_opcode_mask := push_bit 0 1\<rparr>, True) else (cfg, True))"
| "opcodes_loop doc (it # its) cfg = (case doc it of None \<Rightarrow> (cfg, False)
     | Some entry \<Rightarrow> (case zereh_parse_u32 (Some entry) of None \<Rightarrow> (cfg, False)
       | Some opcode \<Rightarrow> if opcode > 15 then (cfg, False)
           else opcodes_loop doc its
             (cfg\<lparr>c_allowed_opcode_mask := c_allowed_opcode_mask cfg OR push_bit (unat opcode) 1\<rparr>)))"

definition zereh_parse_allowed_opcodes :: "yaml_doc \<Rightarrow> yaml_node \<Rightarrow> zereh_config act" where
  "zereh_parse_allowed_opcodes doc node cfg = (
     let cfg = cfg\<lparr>c_allowed_opcode_mask := 0\<rparr> in
     case node of
       YAML_SCALAR_NODE v \<Rightarrow> (case zereh_parse_u32 (Some node) of None \<Rightarrow> (cfg, False)
         | Some opcode \<Rightarrow> if opcode > 15 then (cfg, False)
             else (cfg\<lparr>c_allowed_opcode_mask := c_allowed_opcode_mask cfg OR push_bit (unat opcode) 1\<rparr>, True))
     | YAML_SEQUENCE_NODE its \<Rightarrow> opcodes_loop doc its cfg
     | _ \<Rightarrow> (cfg, False))"

definition blacklist_cidr :: "yaml_doc \<Rightarrow> yaml_node \<Rightarrow> string option" where
  "blacklist_cidr doc entry = (case entry of
     YAML_SCALAR_NODE v \<Rightarrow> zereh_scalar (Some entry)
   | YAML_MAPPING_NODE ps \<Rightarrow> zereh_scalar (zereh_map_get doc (Some entry) ''cidr'')
   | _ \<Rightarrow> None)"

fun blacklist_loop :: "yaml_doc \<Rightarrow> int list \<Rightarrow> zereh_config act" where
  "blacklist_loop doc [] cfg = (cfg, True)"
| "blacklist_loop doc (it # its) cfg =
     (if length (c_blacklist cfg) \<ge> ZEREH_MAX_BLACKLIST then (cfg, False)
      else case doc it of None \<Rightarrow> blacklist_loop doc its cfg
      | Some entry \<Rightarrow> (case blacklist_cidr doc entry of None \<Rightarrow> (cfg, False)
          | Some cidr \<Rightarrow> if cidr = [] then (cfg, False)
              else blacklist_loop doc its
                (cfg\<lparr>c_blacklist := c_blacklist cfg @ [snprintf_s ZEREH_MAX_CIDR_LEN cidr]\<rparr>)))"

definition zereh_parse_blacklist :: "yaml_doc \<Rightarrow> yaml_node \<Rightarrow> zereh_config act" where
  "zereh_parse_blacklist doc node cfg = (case node of
     YAML_SEQUENCE_NODE its \<Rightarrow> blacklist_loop doc its (cfg\<lparr>c_blacklist := []\<rparr>)
   | _ \<Rightarrow> (cfg, False))"

subsection \<open>Statements on fields\<close>

definition set_field :: "yaml_node option \<Rightarrow> (yaml_node \<Rightarrow> 'v option) \<Rightarrow> ('v \<Rightarrow> 's \<Rightarrow> 's) \<Rightarrow> 's act" where
  "set_field v parse upd s = (case v of None \<Rightarrow> (s, True)
     | Some n \<Rightarrow> (case parse n of None \<Rightarrow> (s, False) | Some x \<Rightarrow> (upd x s, True)))"

definition copy_field :: "yaml_node option \<Rightarrow> nat \<Rightarrow> (string \<Rightarrow> 's \<Rightarrow> 's) \<Rightarrow> 's act" where
  "copy_field v sz upd s = (case zereh_scalar v of None \<Rightarrow> (s, True)
     | Some t \<Rightarrow> (upd (snprintf_s sz t) s, True))"

text \<open>\<open>if (v && parse (doc, v, s) != 0) return -1;\<close>\<close>

definition sub_parse :: "yaml_node option \<Rightarrow> (yaml_node \<Rightarrow> 's act) \<Rightarrow> 's act" where
  "sub_parse v f s = (case v of None \<Rightarrow> (s, True) | Some n \<Rightarrow> f n s)"

text \<open>\<open>if (node && node->type == YAML_MAPPING_NODE) { ... }\<close>\<close>

definition in_mapping :: "yaml_node option \<Rightarrow> 's act list \<Rightarrow> 's act" where
  "in_mapping node fs s = (if is_mapping node then run_steps fs s else (s, True))"

subsection \<open>Routes\<close>

text \<open>The route under construction and the four \<open>has_...\<close> flags.\<close>

record route_build =
  b_route :: zereh_route
  b_has_min_labels :: bool
  b_has_max_labels :: bool
  b_has_min_length :: bool
  b_has_max_length :: bool

abbreviation (input) on_route :: "('v \<Rightarrow> zereh_route \<Rightarrow> zereh_route) \<Rightarrow> 'v \<Rightarrow> route_build \<Rightarrow> route_build" where
  "on_route f \<equiv> \<lambda>x s. s\<lparr>b_route := f x (b_route s)\<rparr>"

definition zereh_parse_route_dns_types :: "yaml_doc \<Rightarrow> yaml_node \<Rightarrow> route_build act" where
  "zereh_parse_route_dns_types doc dns_types s = (
     if \<not> is_mapping (Some dns_types) then (s, False) else
     let allow = (case zereh_map_get doc (Some dns_types) ''allow'' of
                    None \<Rightarrow> Some (r_rrtype_mask (b_route s)) | Some n \<Rightarrow> zereh_parse_rrtype_mask doc n) in
     case allow of None \<Rightarrow> (s, False) | Some allow_mask \<Rightarrow>
     let deny = (case zereh_map_get doc (Some dns_types) ''deny'' of
                   None \<Rightarrow> Some 0 | Some n \<Rightarrow> zereh_parse_rrtype_mask doc n) in
     case deny of None \<Rightarrow> (s, False) | Some deny_mask \<Rightarrow>
     let s = s\<lparr>b_route := (b_route s)\<lparr>r_rrtype_mask := allow_mask AND NOT deny_mask\<rparr>\<rparr> in
     (s, r_rrtype_mask (b_route s) \<noteq> 0))"

fun bloom_seeds_loop :: "yaml_doc \<Rightarrow> int list \<Rightarrow> route_build act" where
  "bloom_seeds_loop doc [] s = (s, True)"
| "bloom_seeds_loop doc (it # its) s =
     (if length (r_bloom_seeds (b_route s)) \<ge> ZEREH_MAX_BLOOM_SEEDS then (s, False)
      else case zereh_scalar (doc it) of None \<Rightarrow> (s, False)
      | Some seed \<Rightarrow> if seed = [] then (s, False)
          else bloom_seeds_loop doc its
            (s\<lparr>b_route := (b_route s)\<lparr>r_bloom_seeds := r_bloom_seeds (b_route s) @
                 [snprintf_s (ZEREH_MAX_DOMAIN_LEN + 1) seed]\<rparr>\<rparr>))"

definition zereh_parse_bloom_seeds :: "yaml_doc \<Rightarrow> yaml_node \<Rightarrow> route_build act" where
  "zereh_parse_bloom_seeds doc node s = (case node of
     YAML_SEQUENCE_NODE its \<Rightarrow> bloom_seeds_loop doc its (s\<lparr>b_route := (b_route s)\<lparr>r_bloom_seeds := []\<rparr>\<rparr>)
   | _ \<Rightarrow> (s, False))"

definition pow_steps :: "yaml_doc \<Rightarrow> yaml_node option \<Rightarrow> route_build act list" where
  "pow_steps doc node = [
     set_field (zereh_map_get doc node ''enabled'') (zereh_parse_bool \<circ> Some) (on_route (\<lambda>x r. r\<lparr>r_pow_enabled := x\<rparr>)),
     set_field (zereh_map_get doc node ''difficulty'') (zereh_parse_u8 \<circ> Some) (on_route (\<lambda>x r. r\<lparr>r_pow_difficulty := x\<rparr>)),
     set_field (zereh_map_get doc node ''time_window'') (zereh_parse_u16 \<circ> Some) (on_route (\<lambda>x r. r\<lparr>r_pow_time_window := x\<rparr>))]"

text \<open>The updates that record that a bound was given.\<close>

definition put_min_labels :: "u8 \<Rightarrow> route_build \<Rightarrow> route_build" where
  "put_min_labels x s = s\<lparr>b_route := (b_route s)\<lparr>r_min_labels := x\<rparr>, b_has_min_labels := True\<rparr>"
definition put_max_labels :: "u8 \<Rightarrow> route_build \<Rightarrow> route_build" where
  "put_max_labels x s = s\<lparr>b_route := (b_route s)\<lparr>r_max_labels := x\<rparr>, b_has_max_labels := True\<rparr>"
definition put_min_length :: "u16 \<Rightarrow> route_build \<Rightarrow> route_build" where
  "put_min_length x s = s\<lparr>b_route := (b_route s)\<lparr>r_qname_min_len := x\<rparr>, b_has_min_length := True\<rparr>"
definition put_max_length :: "u16 \<Rightarrow> route_build \<Rightarrow> route_build" where
  "put_max_length x s = s\<lparr>b_route := (b_route s)\<lparr>r_qname_max_len := x\<rparr>, b_has_max_length := True\<rparr>"

definition qname_rules_steps :: "yaml_doc \<Rightarrow> yaml_node option \<Rightarrow> route_build act list" where
  "qname_rules_steps doc node = [
     copy_field (zereh_map_get doc node ''prefix_match'') (ZEREH_MAX_PATTERN_LEN + 1) (on_route (\<lambda>x r. r\<lparr>r_prefix := x\<rparr>)),
     copy_field (zereh_map_get doc node ''suffix_match'') (ZEREH_MAX_PATTERN_LEN + 1) (on_route (\<lambda>x r. r\<lparr>r_suffix := x\<rparr>)),
     set_field (zereh_map_get doc node ''min_labels'') (zereh_parse_u8 \<circ> Some) put_min_labels,
     set_field (zereh_map_get doc node ''max_labels'') (zereh_parse_u8 \<circ> Some) put_max_labels,
     set_field (zereh_map_get doc node ''min_length'') (zereh_parse_u16 \<circ> Some) put_min_length,
     set_field (zereh_map_get doc node ''max_length'') (zereh_parse_u16 \<circ> Some) put_max_length]"

definition bloom_steps :: "yaml_doc \<Rightarrow> yaml_node option \<Rightarrow> route_build act list" where
  "bloom_steps doc node = [
     set_field (zereh_map_get doc node ''enabled'') (zereh_parse_bool \<circ> Some) (on_route (\<lambda>x r. r\<lparr>r_bloom_enabled := x\<rparr>)),
     set_field (zereh_map_get doc node ''size'') (zereh_parse_u32 \<circ> Some) (on_route (\<lambda>x r. r\<lparr>r_bloom_size := x\<rparr>)),
     set_field (zereh_map_get doc node ''hash_functions'') (zereh_parse_u8 \<circ> Some)
       (on_route (\<lambda>x r. r\<lparr>r_bloom_hash_functions := x\<rparr>)),
     set_field (zereh_map_get doc node ''time_window'') (zereh_parse_u16 \<circ> Some)
       (on_route (\<lambda>x r. r\<lparr>r_bloom_time_window := x\<rparr>)),
     sub_parse (case map_get2 doc node ''allow_qnames'' ''seed_qnames'' of
         None \<Rightarrow> zereh_map_get doc node ''seeds'' | Some v \<Rightarrow> Some v) (zereh_parse_bloom_seeds doc)]"

definition zereh_parse_route_filters :: "yaml_doc \<Rightarrow> yaml_node \<Rightarrow> route_build act" where
  "zereh_parse_route_filters doc filters s = (
     if \<not> is_mapping (Some filters) then (s, False) else
     let get = zereh_map_get doc (Some filters) in
     run_steps [
       in_mapping (get ''pow'') (pow_steps doc (get ''pow'')),
       in_mapping (get ''qname_rules'') (qname_rules_steps doc (get ''qname_rules'')),
       in_mapping (get ''rate_limit'')
         [set_field (zereh_map_get doc (get ''rate_limit'') ''qps'') (zereh_parse_u32 \<circ> Some)
            (on_route (\<lambda>x r. r\<lparr>r_rate_limit_qps := x\<rparr>))],
       sub_parse (get ''dns_types'') (zereh_parse_route_dns_types doc),
       in_mapping (get ''bloom_filter'') (bloom_steps doc (get ''bloom_filter''))] s)"

text \<open>\<open>memset\<close> and the assignments before the first key is read\<close>

definition route_init :: "zereh_config \<Rightarrow> zereh_route" where
  "route_init cfg = \<lparr>r_domain = [], r_hash = 0, r_target = ZEREH_TARGET_USER_SPACE, r_xsk_queue = 0,
     r_kernel_port = c_default_kernel_port cfg, r_prog_index = 0, r_prog_name = [], r_prefix = [], r_suffix = [],
     r_min_labels = 0, r_max_labels = 0, r_qname_min_len = 0, r_qname_max_len = 0,
     r_rrtype_mask = ZEREH_RRTYPE_A OR ZEREH_RRTYPE_AAAA OR ZEREH_RRTYPE_TXT,
     r_pow_enabled = 1, r_pow_difficulty = 0, r_pow_time_window = 0,
     r_bloom_enabled = 0, r_bloom_size = 1024, r_bloom_hash_functions = 3, r_bloom_time_window = 0,
     r_bloom_seeds = [], r_rate_limit_qps = 0\<rparr>"

text \<open>From \<open>xsk_map_index\<close> to \<open>filters\<close>.\<close>

definition route_steps :: "yaml_doc \<Rightarrow> yaml_node option \<Rightarrow> route_build act list" where
  "route_steps doc node = [
     set_field (map_get2 doc node ''xsk_map_index'' ''xsk_queue'') (zereh_parse_u32 \<circ> Some)
       (on_route (\<lambda>x r. r\<lparr>r_xsk_queue := x\<rparr>)),
     set_field (map_get2 doc node ''forward_port'' ''kernel_port'') (zereh_parse_u16 \<circ> Some)
       (on_route (\<lambda>x r. r\<lparr>r_kernel_port := x\<rparr>)),
     set_field (map_get2 doc node ''prog_array_index'' ''prog_index'') (zereh_parse_u32 \<circ> Some)
       (on_route (\<lambda>x r. r\<lparr>r_prog_index := x\<rparr>)),
     copy_field (map_get2 doc node ''prog_name'' ''xdp_prog_name'') ZEREH_MAX_PROG_NAME
       (on_route (\<lambda>x r. r\<lparr>r_prog_name := x\<rparr>)),
     copy_field (zereh_map_get doc node ''prefix'') (ZEREH_MAX_PATTERN_LEN + 1) (on_route (\<lambda>x r. r\<lparr>r_prefix := x\<rparr>)),
     copy_field (zereh_map_get doc node ''suffix'') (ZEREH_MAX_PATTERN_LEN + 1) (on_route (\<lambda>x r. r\<lparr>r_suffix := x\<rparr>)),
     set_field (zereh_map_get doc node ''min_labels'') (zereh_parse_u8 \<circ> Some) put_min_labels,
     set_field (zereh_map_get doc node ''max_labels'') (zereh_parse_u8 \<circ> Some) put_max_labels,
     set_field (map_get2 doc node ''qname_min_len'' ''min_length'') (zereh_parse_u16 \<circ> Some) put_min_length,
     set_field (map_get2 doc node ''qname_max_len'' ''max_length'') (zereh_parse_u16 \<circ> Some) put_max_length,
     set_field (zereh_map_get doc node ''pow_difficulty'') (zereh_parse_u8 \<circ> Some)
       (on_route (\<lambda>x r. r\<lparr>r_pow_difficulty := x\<rparr>)),
     set_field (zereh_map_get doc node ''allow_types'') (zereh_parse_rrtype_mask doc)
       (on_route (\<lambda>x r. r\<lparr>r_rrtype_mask := x\<rparr>)),
     sub_parse (zereh_map_get doc node ''filters'') (zereh_parse_route_filters doc)]"

text \<open>A bound that was not given: both defaults, or the other bound.\<close>

definition label_defaults :: "route_build \<Rightarrow> route_build" where
  "label_defaults s = (let r = b_route s in
     if \<not> b_has_min_labels s \<and> \<not> b_has_max_labels s then s\<lparr>b_route := r\<lparr>r_min_labels := 1, r_max_labels := 127\<rparr>\<rparr>
     else if b_has_min_labels s \<and> \<not> b_has_max_labels s then s\<lparr>b_route := r\<lparr>r_max_labels := r_min_labels r\<rparr>\<rparr>
     else if \<not> b_has_min_labels s \<and> b_has_max_labels s then s\<lparr>b_route := r\<lparr>r_min_labels := r_max_labels r\<rparr>\<rparr>
     else s)"

definition length_defaults :: "route_build \<Rightarrow> route_build" where
  "length_defaults s = (let r = b_route s in
     if \<not> b_has_min_length s \<and> \<not> b_has_max_length s then s\<lparr>b_route := r\<lparr>r_qname_min_len := 1, r_qname_max_len := 255\<rparr>\<rparr>
     else if b_has_min_length s \<and> \<not> b_has_max_length s then s\<lparr>b_route := r\<lparr>r_qname_max_len := r_qname_min_len r\<rparr>\<rparr>
     else if \<not> b_has_min_length s \<and> b_has_max_length s then s\<lparr>b_route := r\<lparr>r_qname_min_len := r_qname_max_len r\<rparr>\<rparr>
     else s)"

text \<open>The checks and normalisations at the end.\<close>

definition route_finish :: "zereh_route \<Rightarrow> zereh_route option" where
  "route_finish r = (
     if r_min_labels r = 0 \<or> r_max_labels r = 0 \<or> r_min_labels r > r_max_labels r \<or> r_max_labels r > 127 then None else
     if r_qname_min_len r = 0 \<or> r_qname_max_len r > 255 \<or> r_qname_min_len r > r_qname_max_len r then None else
     let r = (if r_pow_enabled r = 0 then r\<lparr>r_pow_difficulty := 0, r_pow_time_window := 0\<rparr> else r) in
     if r_pow_difficulty r > 63 then None else
     if r_bloom_enabled r = 0
     then Some (r\<lparr>r_bloom_size := 0, r_bloom_hash_functions := 0, r_bloom_time_window := 0, r_bloom_seeds := []\<rparr>)
     else
       let r = (if r_bloom_size r = 0 then r\<lparr>r_bloom_size := 1024\<rparr> else r);
           r = (if r_bloom_hash_functions r = 0 then r\<lparr>r_bloom_hash_functions := 3\<rparr> else r) in
       if r_bloom_size r > 65536 \<or> r_bloom_size r < 64 then None else
       if r_bloom_hash_functions r > 8 then None else
       Some (if r_bloom_seeds r = [] then r\<lparr>r_bloom_seeds := [take ZEREH_MAX_DOMAIN_LEN (r_domain r)]\<rparr> else r))"

definition zereh_parse_route :: "yaml_doc \<Rightarrow> yaml_node option \<Rightarrow> zereh_config \<Rightarrow> zereh_route option" where
  "zereh_parse_route doc node cfg = (
     if \<not> is_mapping node then None else
     case zereh_scalar (zereh_map_get doc node ''domain'') of None \<Rightarrow> None | Some domain \<Rightarrow>
     if domain = [] then None else
     let route = (route_init cfg)\<lparr>r_domain := snprintf_s (ZEREH_MAX_DOMAIN_LEN + 1) domain\<rparr>;
         route = route\<lparr>r_hash := zereh_hash_domain (r_domain route) (c_hash_algo cfg)\<rparr> in
     case zereh_scalar (map_get2 doc node ''target_type'' ''target'') of None \<Rightarrow> None | Some target \<Rightarrow>
     case zereh_parse_target target of None \<Rightarrow> None | Some t \<Rightarrow>
     let s = \<lparr>b_route = route\<lparr>r_target := t\<rparr>, b_has_min_labels = False, b_has_max_labels = False,
              b_has_min_length = False, b_has_max_length = False\<rparr> in
     case run_steps (route_steps doc node) s of (s, ok) \<Rightarrow>
     if \<not> ok then None else route_finish (b_route (length_defaults (label_defaults s))))"

fun routes_loop :: "yaml_doc \<Rightarrow> int list \<Rightarrow> zereh_config act" where
  "routes_loop doc [] cfg = (cfg, True)"
| "routes_loop doc (it # its) cfg =
     (if length (c_routes cfg) \<ge> ZEREH_MAX_ROUTES then (cfg, False)
      else case zereh_parse_route doc (doc it) cfg of None \<Rightarrow> (cfg, False)
      | Some r \<Rightarrow> routes_loop doc its (cfg\<lparr>c_routes := c_routes cfg @ [r]\<rparr>))"

definition zereh_parse_routes :: "yaml_doc \<Rightarrow> yaml_node \<Rightarrow> zereh_config act" where
  "zereh_parse_routes doc node cfg = (case node of
     YAML_SEQUENCE_NODE its \<Rightarrow> routes_loop doc its (cfg\<lparr>c_routes := []\<rparr>)
   | _ \<Rightarrow> (cfg, False))"

subsection \<open>The whole configuration\<close>

text \<open>\<open>interface\<close>, \<open>xdp_mode\<close>, \<open>default_action\<close>, read from \<open>global\<close> and from the root\<close>

definition interface_steps :: "yaml_doc \<Rightarrow> yaml_node option \<Rightarrow> zereh_config act list" where
  "interface_steps doc node = [
     copy_field (zereh_map_get doc node ''interface'') IFNAMSIZ (\<lambda>x c. c\<lparr>c_interface := x\<rparr>),
     set_field (zereh_map_get doc node ''xdp_mode'') (zereh_parse_xdp_mode \<circ> Some) (\<lambda>x c. c\<lparr>c_xdp_mode := x\<rparr>),
     set_field (zereh_map_get doc node ''default_action'') (zereh_parse_default_action \<circ> Some)
       (\<lambda>x c. c\<lparr>c_default_action := x\<rparr>)]"

definition zereh_parse_global_section :: "yaml_doc \<Rightarrow> yaml_node option \<Rightarrow> zereh_config act" where
  "zereh_parse_global_section doc root = run_steps
     (in_mapping (zereh_map_get doc root ''global'') (interface_steps doc (zereh_map_get doc root ''global'')) #
      interface_steps doc root)"

definition packet_filter_steps :: "yaml_doc \<Rightarrow> yaml_node option \<Rightarrow> string \<Rightarrow> zereh_config act list" where
  "packet_filter_steps doc node blacklist_key = [
     sub_parse (zereh_map_get doc node blacklist_key) (zereh_parse_blacklist doc),
     set_field (zereh_map_get doc node ''max_packet_size'') (zereh_parse_u32 \<circ> Some) (\<lambda>x c. c\<lparr>c_max_packet_size := x\<rparr>),
     sub_parse (zereh_map_get doc node ''allowed_opcodes'') (zereh_parse_allowed_opcodes doc),
     set_field (zereh_map_get doc node ''drop_truncated'') (zereh_parse_bool \<circ> Some) (\<lambda>x c. c\<lparr>c_drop_truncated := x\<rparr>)]"

definition zereh_parse_global_filters :: "yaml_doc \<Rightarrow> yaml_node option \<Rightarrow> zereh_config act" where
  "zereh_parse_global_filters doc root = run_steps
     (in_mapping (zereh_map_get doc root ''global_filters'')
        (packet_filter_steps doc (zereh_map_get doc root ''global_filters'') ''ip_blacklist'') #
      packet_filter_steps doc root ''blacklist'')"

definition zereh_parse_codegen_options :: "yaml_doc \<Rightarrow> yaml_node option \<Rightarrow> zereh_config act" where
  "zereh_parse_codegen_options doc root = (let options = zereh_map_get doc root ''codegen_options'' in
     in_mapping options [
       sub_parse (zereh_map_get doc options ''hash_algorithm'') (zereh_parse_hash_algorithm \<circ> Some),
       set_field (zereh_map_get doc options ''optimize_jump_tables'') (zereh_parse_bool \<circ> Some)
         (\<lambda>x c. c\<lparr>c_optimize_jump_tables := x\<rparr>),
       set_field (zereh_map_get doc options ''inline_checksums'') (zereh_parse_bool \<circ> Some)
         (\<lambda>x c. c\<lparr>c_inline_checksums := x\<rparr>)])"

text \<open>The statements before the routes.\<close>

definition config_steps :: "yaml_doc \<Rightarrow> yaml_node option \<Rightarrow> zereh_config act list" where
  "config_steps doc root = [
     zereh_parse_global_section doc root,
     zereh_parse_global_filters doc root,
     copy_field (zereh_map_get doc root ''template_path'') PATH_MAX (\<lambda>x c. c\<lparr>c_template_path := x\<rparr>),
     copy_field (zereh_map_get doc root ''generated_source'') PATH_MAX (\<lambda>x c. c\<lparr>c_generated_source := x\<rparr>),
     copy_field (zereh_map_get doc root ''generated_object'') PATH_MAX (\<lambda>x c. c\<lparr>c_generated_object := x\<rparr>),
     copy_field (zereh_map_get doc root ''xdp_section'') 64 (\<lambda>x c. c\<lparr>c_xdp_section := x\<rparr>),
     set_field (zereh_map_get doc root ''default_kernel_port'') (zereh_parse_u16 \<circ> Some)
       (\<lambda>x c. c\<lparr>c_default_kernel_port := x\<rparr>),
     zereh_parse_codegen_options doc root]"

text \<open>
  \<open>loaded\<close> is what opening the file and \<open>yaml_parser_load\<close> give: \<open>None\<close> on failure, else
  the document and its root node.
\<close>

definition zereh_parse_config_yaml :: "(yaml_doc \<times> yaml_node option) option \<Rightarrow> zereh_config \<times> bool" where
  "zereh_parse_config_yaml loaded = (
     let cfg = zereh_config_init_defaults in
     case loaded of None \<Rightarrow> (cfg, False) | Some (doc, root) \<Rightarrow>
     if \<not> is_mapping root then (cfg, False) else
     case run_steps (config_steps doc root) cfg of (cfg, ok) \<Rightarrow>
     if \<not> ok then (cfg, False) else
     case zereh_map_get doc root ''routes'' of None \<Rightarrow> (cfg, False) | Some node \<Rightarrow>
     case zereh_parse_routes doc node cfg of (cfg, ok) \<Rightarrow>
     if \<not> ok then (cfg, False) else
     (cfg, c_routes cfg \<noteq> []))"

section \<open>Scalars and numbers\<close>

lemma zereh_scalar_no_NUL: "zereh_scalar v = Some t \<Longrightarrow> CHR 0x00 \<notin> set t"
  by (auto simp: zereh_scalar_def cstr_no_NUL split: option.splits yaml_node.splits)

lemma dec_of_no_NUL: "CHR 0x00 \<notin> set (dec_of n)"
  using dec_of_digits by (fastforce simp: c_isdigit_def)

lemma zereh_scalar_dec: "zereh_scalar (Some (YAML_SCALAR_NODE (dec_of n))) = Some (dec_of n)"
  by (simp add: zereh_scalar_def cstr_id dec_of_no_NUL)

lemma strtoul10_dec_large: "2 ^ 64 \<le> n \<Longrightarrow> strtoul10 (dec_of n) = (- 1, [])"
proof -
  assume n: "2 ^ 64 \<le> n"
  obtain c r where ds: "dec_of n = c # r" and c: "c_isdigit c"
    using dec_of_digits dec_of_nonempty [of n] by (cases "dec_of n") (auto, metis list.set_intros(1))
  have "dropWhile c_isspace (dec_of n) = dec_of n" using ds digit_not_space [OF c] by simp
  moreover have tw: "takeWhile c_isdigit (dec_of n) = dec_of n" "dropWhile c_isdigit (dec_of n) = []"
    using dec_of_digits by auto
  moreover have "strto_sign (dec_of n) = (False, dec_of n)" using strto_sign_digit [OF c, of r] ds by simp
  ultimately show ?thesis using n by (simp add: strtoul10_def Let_def tw digits_val_dec_of)
qed

lemma parse_u32_dec:
  "zereh_parse_u32 (Some (YAML_SCALAR_NODE (dec_of n))) = (if n \<le> 0xffffffff then Some (of_nat n) else None)"
proof (cases "n < 2 ^ 64")
  case True
  then have "unat (of_nat n :: u64) = n" by (simp add: unat_of_nat)
  then have "(of_nat n :: u64) \<le> 0xffffffff \<longleftrightarrow> n \<le> 0xffffffff" by (simp add: word_le_nat_alt)
  moreover have "ucast (of_nat n :: u64) = (of_nat n :: u32)" 
    by (rule bit_word_eqI) (simp add: bit_simps)
  ultimately show ?thesis using True by (simp add: zereh_parse_u32_def zereh_scalar_dec strtoul10_dec not_le [symmetric] not_sym [OF dec_of_nonempty])
next
  case False
  then show ?thesis by (simp add: zereh_parse_u32_def zereh_scalar_dec strtoul10_dec_large)
qed

text \<open>
  The contract of the unsigned integer parsers: they read every decimal number of their
  width, refuse every larger one instead of truncating it, and refuse non-scalars.
\<close>

locale uint_parser =
  fixes parse :: "yaml_node option \<Rightarrow> 'a::len word option"
  assumes parse_dec: "parse (Some (YAML_SCALAR_NODE (dec_of n))) =
      (if n < 2 ^ LENGTH('a) then Some (of_nat n) else None)"
    and parse_scalar: "parse v = Some x \<Longrightarrow> zereh_scalar v \<noteq> None"
begin

lemma roundtrip: "parse (Some (YAML_SCALAR_NODE (dec_of (unat x)))) = Some x"
  by (simp add: parse_dec)

lemma no_truncation: "2 ^ LENGTH('a) \<le> n \<Longrightarrow> parse (Some (YAML_SCALAR_NODE (dec_of n))) = None"
  by (simp add: parse_dec)

lemma not_scalar: "zereh_scalar v = None \<Longrightarrow> parse v = None"
  using parse_scalar by (cases "parse v") auto

end

interpretation u32_parser: uint_parser zereh_parse_u32
proof
  show "zereh_parse_u32 v = Some x \<Longrightarrow> zereh_scalar v \<noteq> None" for v x
    by (auto simp: zereh_parse_u32_def split: option.splits)
qed (auto simp: parse_u32_dec)

lemma of_nat_le_u32: "n \<le> 0xffffffff \<Longrightarrow> (of_nat n :: u32) \<le> of_nat m \<longleftrightarrow> n \<le> m" if "m \<le> 0xffffffff"
  using that by (simp add: word_le_nat_alt unat_of_nat)

lemma ucast_of_nat_u32: "LENGTH('b) \<le> 32 \<Longrightarrow> ucast (of_nat n :: u32) = (of_nat n :: 'b::len word)"
  by (rule bit_word_eqI) (simp add: bit_simps)

interpretation u16_parser: uint_parser zereh_parse_u16
proof
  fix n
  show "zereh_parse_u16 (Some (YAML_SCALAR_NODE (dec_of n))) = (if n < 2 ^ LENGTH(16) then Some (of_nat n) else None)"
    using of_nat_le_u32 [of 65535 n] ucast_of_nat_u32 [where ?'b = 16, of n]
    by (auto simp: zereh_parse_u16_def parse_u32_dec not_le [symmetric])
qed (auto simp: zereh_parse_u16_def split: option.splits if_splits dest: u32_parser.parse_scalar)

interpretation u8_parser: uint_parser zereh_parse_u8
proof
  fix n
  show "zereh_parse_u8 (Some (YAML_SCALAR_NODE (dec_of n))) = (if n < 2 ^ LENGTH(8) then Some (of_nat n) else None)"
    using of_nat_le_u32 [of 255 n] ucast_of_nat_u32 [where ?'b = 8, of n]
    by (auto simp: zereh_parse_u8_def parse_u32_dec not_le [symmetric])
qed (auto simp: zereh_parse_u8_def split: option.splits if_splits dest: u32_parser.parse_scalar)

section \<open>What the statements keep\<close>

text \<open>\<open>keeps I f\<close>: if the statement succeeds, it preserves \<open>I\<close>.\<close>

definition keeps :: "('s \<Rightarrow> bool) \<Rightarrow> 's act \<Rightarrow> bool" where
  "keeps I f \<longleftrightarrow> (\<forall>s. I s \<and> snd (f s) \<longrightarrow> I (fst (f s)))"

lemma keepsD: "keeps I f \<Longrightarrow> f s = (s', True) \<Longrightarrow> I s \<Longrightarrow> I s'"
  unfolding keeps_def by (metis fst_conv snd_conv)

lemma keeps_run_steps [intro]:
  assumes "list_all (keeps I) fs"
  shows "keeps I (run_steps fs)"
proof -
  have "I s \<Longrightarrow> snd (run_steps fs s) \<Longrightarrow> I (fst (run_steps fs s))" for s
    using assms
  proof (induction fs arbitrary: s)
    case (Cons f fs)
    then have "I (fst (f s))" by (auto simp: keeps_def split: prod.splits if_splits)
    then show ?case using Cons by (auto split: prod.splits if_splits)
  qed simp
  then show ?thesis by (simp add: keeps_def)
qed

lemma keeps_set_field [intro]:
  "(\<And>n x s. v = Some n \<Longrightarrow> p n = Some x \<Longrightarrow> I s \<Longrightarrow> I (upd x s)) \<Longrightarrow> keeps I (set_field v p upd)"
  by (auto simp: keeps_def set_field_def split: option.splits)

lemma keeps_copy_field [intro]:
  "0 < sz \<Longrightarrow> (\<And>t s. fits sz t \<Longrightarrow> I s \<Longrightarrow> I (upd t s)) \<Longrightarrow> keeps I (copy_field v sz upd)"
  by (auto simp: keeps_def copy_field_def dest!: zereh_scalar_no_NUL split: option.splits)

lemma keeps_sub_parse [intro]: "(\<And>n. keeps I (f n)) \<Longrightarrow> keeps I (sub_parse v f)"
  by (auto simp: keeps_def sub_parse_def split: option.splits)

lemma keeps_in_mapping [intro]: "list_all (keeps I) fs \<Longrightarrow> keeps I (in_mapping node fs)"
  using keeps_run_steps [of I fs] by (auto simp: keeps_def in_mapping_def)

lemmas keeps_intros = keeps_run_steps keeps_set_field keeps_copy_field keeps_sub_parse keeps_in_mapping

subsection \<open>Routes\<close>

text \<open>
  The invariant of a route under construction: buffers within bounds, some record type
  allowed, and domain, hash and target as set before the other keys are read.
\<close>

definition build_inv :: "string \<Rightarrow> u64 \<Rightarrow> zereh_target_type \<Rightarrow> route_build \<Rightarrow> bool" where
  "build_inv d h t s \<longleftrightarrow> route_buffers_ok (b_route s) \<and> r_rrtype_mask (b_route s) \<noteq> 0 \<and>
     r_domain (b_route s) = d \<and> r_hash (b_route s) = h \<and> r_target (b_route s) = t"

lemma rrtype_mask_loop_nz: "rrtype_mask_loop doc its m = Some m' \<Longrightarrow> m' \<noteq> 0"
  by (induction its arbitrary: m) (auto simp: Let_def split: if_splits)

lemma parse_rrtype_mask_nz: "zereh_parse_rrtype_mask doc n = Some m \<Longrightarrow> m \<noteq> 0"
  by (auto simp: zereh_parse_rrtype_mask_def Let_def rrtype_mask_loop_nz split: yaml_node.splits if_splits)

lemma keeps_dns_types: "keeps (build_inv d h t) (zereh_parse_route_dns_types doc n)"
  by (auto simp: keeps_def zereh_parse_route_dns_types_def build_inv_def route_buffers_ok_def Let_def
      split: option.splits)

lemma bloom_seeds_loop_inv:
  "build_inv d h t s \<Longrightarrow> snd (bloom_seeds_loop doc its s) \<Longrightarrow> build_inv d h t (fst (bloom_seeds_loop doc its s))"
proof (induction its arbitrary: s)
  case (Cons it its)
  show ?case
  proof (cases "length (r_bloom_seeds (b_route s)) \<ge> 32 \<or> zereh_scalar (doc it) = None \<or> zereh_scalar (doc it) = Some []")
    case False
    then obtain seed where seed: "zereh_scalar (doc it) = Some seed" "seed \<noteq> []" by auto
    let ?s = "s\<lparr>b_route := (b_route s)\<lparr>r_bloom_seeds := r_bloom_seeds (b_route s) @ [snprintf_s 256 seed]\<rparr>\<rparr>"
    have "fits 256 (snprintf_s 256 seed)" using zereh_scalar_no_NUL [OF seed(1)] by (intro fits_snprintf_s) auto
    then have "build_inv d h t ?s" using Cons.prems(1) False by (auto simp: build_inv_def route_buffers_ok_def)
    then show ?thesis using Cons.IH [of ?s] Cons.prems(2) seed False by simp
  qed (use Cons.prems in \<open>auto split: option.splits\<close>)
qed simp

lemma keeps_bloom_seeds: "keeps (build_inv d h t) (zereh_parse_bloom_seeds doc n)"
proof (cases n)
  case (YAML_SEQUENCE_NODE its)
  have "build_inv d h t (s\<lparr>b_route := (b_route s)\<lparr>r_bloom_seeds := []\<rparr>\<rparr>)" if "build_inv d h t s" for s
    using that by (auto simp: build_inv_def route_buffers_ok_def)
  then show ?thesis
    using bloom_seeds_loop_inv by (simp add: YAML_SEQUENCE_NODE keeps_def zereh_parse_bloom_seeds_def)
qed (auto simp: keeps_def zereh_parse_bloom_seeds_def)

lemmas put_defs = put_min_labels_def put_max_labels_def put_min_length_def put_max_length_def

lemma keeps_filters: "keeps (build_inv d h t) (zereh_parse_route_filters doc n)"
proof -
  let ?get = "zereh_map_get doc (Some n)"
  let ?I = "build_inv d h t"
  have "list_all (keeps ?I) (pow_steps doc v)" "list_all (keeps ?I) (qname_rules_steps doc v)"
    "list_all (keeps ?I) (bloom_steps doc v)" for v
    by (auto simp: pow_steps_def qname_rules_steps_def bloom_steps_def build_inv_def route_buffers_ok_def put_defs
        intro!: keeps_bloom_seeds)
  then have "keeps ?I (run_steps [
       in_mapping (?get ''pow'') (pow_steps doc (?get ''pow'')),
       in_mapping (?get ''qname_rules'') (qname_rules_steps doc (?get ''qname_rules'')),
       in_mapping (?get ''rate_limit'')
         [set_field (zereh_map_get doc (?get ''rate_limit'') ''qps'') (zereh_parse_u32 \<circ> Some)
            (on_route (\<lambda>x r. r\<lparr>r_rate_limit_qps := x\<rparr>))],
       sub_parse (?get ''dns_types'') (zereh_parse_route_dns_types doc),
       in_mapping (?get ''bloom_filter'') (bloom_steps doc (?get ''bloom_filter''))])"
    by (auto simp: build_inv_def route_buffers_ok_def intro!: keeps_intros keeps_dns_types)
  then show ?thesis by (auto simp: keeps_def zereh_parse_route_filters_def Let_def)
qed

lemma keeps_route_steps: "keeps (build_inv d h t) (run_steps (route_steps doc node))"
  by (rule keeps_run_steps)
    (auto simp: route_steps_def build_inv_def route_buffers_ok_def put_defs
      intro!: keeps_intros keeps_filters dest: parse_rrtype_mask_nz)

lemma defaults_keep: "build_inv d h t s \<Longrightarrow> build_inv d h t (length_defaults (label_defaults s))"
  by (auto simp: build_inv_def label_defaults_def length_defaults_def route_buffers_ok_def Let_def)

lemma route_finish_limits:
  "route_finish r = Some r' \<Longrightarrow> r_rrtype_mask r \<noteq> 0 \<Longrightarrow> route_limits_ok r'"
  by (auto simp: route_finish_def route_limits_ok_def Let_def not_less word_gt_0 split: if_splits)

lemma route_finish_keeps:
  "route_finish r = Some r' \<Longrightarrow> route_buffers_ok r \<Longrightarrow>
     route_buffers_ok r' \<and> r_domain r' = r_domain r \<and> r_hash r' = r_hash r \<and> r_target r' = r_target r"
  by (auto simp: route_finish_def route_buffers_ok_def Let_def fits_def dest!: in_set_takeD split: if_splits)

lemma route_init_inv:
  assumes "fits 256 dm"
  shows "build_inv dm h t \<lparr>b_route = (route_init cfg)\<lparr>r_domain := dm, r_hash := h, r_target := t\<rparr>,
     b_has_min_labels = False, b_has_max_labels = False, b_has_min_length = False, b_has_max_length = False\<rparr>"
  using assms by (simp add: build_inv_def route_init_def route_buffers_ok_def rrtype_defs)

lemma parse_route_cases:
  assumes "zereh_parse_route doc node cfg = Some r"
  obtains d t where "zereh_scalar (zereh_map_get doc node ''domain'') = Some d" "d \<noteq> []"
    "zereh_scalar (map_get2 doc node ''target_type'' ''target'') = Some t" "zereh_parse_target t = Some (r_target r)"
    "r_domain r = snprintf_s 256 d" "r_hash r = zereh_hash_domain (snprintf_s 256 d) (c_hash_algo cfg)"
    "route_buffers_ok r" "route_limits_ok r"
proof -
  from assms obtain d tn t s where d: "zereh_scalar (zereh_map_get doc node ''domain'') = Some d" "d \<noteq> []"
    and t: "zereh_scalar (map_get2 doc node ''target_type'' ''target'') = Some tn" "zereh_parse_target tn = Some t"
    and s: "run_steps (route_steps doc node)
      \<lparr>b_route = (route_init cfg)\<lparr>r_domain := snprintf_s 256 d, r_hash := zereh_hash_domain (snprintf_s 256 d) (c_hash_algo cfg),
          r_target := t\<rparr>,
        b_has_min_labels = False, b_has_max_labels = False, b_has_min_length = False, b_has_max_length = False\<rparr> = (s, True)"
    and f: "route_finish (b_route (length_defaults (label_defaults s))) = Some r"
    by (auto simp: zereh_parse_route_def Let_def split: option.splits if_splits prod.splits)
  have "fits 256 (snprintf_s 256 d)" using zereh_scalar_no_NUL [OF d(1)] by (intro fits_snprintf_s) auto
  from defaults_keep [OF keepsD [OF keeps_route_steps s route_init_inv [OF this]]]
  show thesis using that [OF d t(1)] t(2) route_finish_keeps [OF f] route_finish_limits [OF f] by (auto simp: build_inv_def)
qed

lemma parse_route_ok:
  assumes "zereh_parse_route doc node cfg = Some r"
  shows "route_wf r" and "r_hash r = zereh_hash_domain (r_domain r) (c_hash_algo cfg)"
proof -
  obtain d where "d \<noteq> []" "r_domain r = snprintf_s 256 d" "r_hash r = zereh_hash_domain (snprintf_s 256 d) (c_hash_algo cfg)"
    "route_buffers_ok r" "route_limits_ok r" using parse_route_cases [OF assms] by metis
  moreover from this have "r_domain r \<noteq> []" by (cases d) (simp_all add: snprintf_s_def)
  ultimately show "route_wf r" "r_hash r = zereh_hash_domain (r_domain r) (c_hash_algo cfg)"
    by (simp_all add: route_wf_def)
qed

lemma parse_route_source:
  assumes "zereh_parse_route doc node cfg = Some r"
  shows "\<exists>d t. zereh_scalar (zereh_map_get doc node ''domain'') = Some d \<and> d \<noteq> [] \<and> r_domain r = take 255 d \<and>
     zereh_scalar (map_get2 doc node ''target_type'' ''target'') = Some t \<and> zereh_parse_target t = Some (r_target r)"
  by (rule parse_route_cases [OF assms]) (auto simp: snprintf_s_def)

text \<open>The routes are all or nothing: one per item of the sequence, in order.\<close>

lemma routes_loop_ok:
  assumes "routes_loop doc its cfg = (cfg', True)"
  shows "\<exists>rs. cfg' = cfg\<lparr>c_routes := c_routes cfg @ rs\<rparr> \<and>
     list_all2 (\<lambda>it r. \<exists>c. c_hash_algo c = c_hash_algo cfg \<and> c_default_kernel_port c = c_default_kernel_port cfg \<and>
       zereh_parse_route doc (doc it) c = Some r) its rs \<and>
     (its \<noteq> [] \<longrightarrow> length (c_routes cfg @ rs) \<le> ZEREH_MAX_ROUTES)"
  using assms
proof (induction its arbitrary: cfg)
  case (Cons it its)
  from Cons.prems obtain r where r: "zereh_parse_route doc (doc it) cfg = Some r" "length (c_routes cfg) < 1024"
    and rest: "routes_loop doc its (cfg\<lparr>c_routes := c_routes cfg @ [r]\<rparr>) = (cfg', True)"
    by (auto split: if_splits option.splits)
  from Cons.IH [OF rest] obtain rs where rs: "cfg' = cfg\<lparr>c_routes := c_routes cfg @ r # rs\<rparr>"
    "list_all2 (\<lambda>it r. \<exists>c. c_hash_algo c = c_hash_algo cfg \<and> c_default_kernel_port c = c_default_kernel_port cfg \<and>
       zereh_parse_route doc (doc it) c = Some r) its rs"
    "its \<noteq> [] \<longrightarrow> length (c_routes cfg @ [r] @ rs) \<le> 1024" by auto
  moreover have "length (c_routes cfg @ [r] @ rs) \<le> 1024"
    using rs(2,3) r(2) by (cases "its = []") auto
  ultimately show ?case using r by (intro exI [of _ "r # rs"]) auto
qed simp

text \<open>\<open>zereh_parse_route\<close> reads of the configuration only what these two fields hold.\<close>

lemma parse_route_cong:
  assumes "c_hash_algo c = c_hash_algo cfg" and "c_default_kernel_port c = c_default_kernel_port cfg"
  shows "zereh_parse_route doc node c = zereh_parse_route doc node cfg"
proof -
  have "route_init c = route_init cfg" using assms by (simp add: route_init_def)
  then show ?thesis unfolding zereh_parse_route_def by (simp only: assms)
qed

lemma parse_routes_ok:
  assumes "zereh_parse_routes doc node cfg = (cfg', True)"
  obtains its rs where "node = YAML_SEQUENCE_NODE its" "cfg' = cfg\<lparr>c_routes := rs\<rparr>" "length rs \<le> ZEREH_MAX_ROUTES"
    "list_all2 (\<lambda>it r. zereh_parse_route doc (doc it) cfg = Some r) its rs"
proof -
  from assms obtain its where its: "node = YAML_SEQUENCE_NODE its" "routes_loop doc its (cfg\<lparr>c_routes := []\<rparr>) = (cfg', True)"
    by (auto simp: zereh_parse_routes_def split: yaml_node.splits)
  have "\<exists>rs. cfg' = cfg\<lparr>c_routes := rs\<rparr> \<and> 
     list_all2 (\<lambda>it r. \<exists>c. c_hash_algo c = c_hash_algo cfg \<and> c_default_kernel_port c = c_default_kernel_port cfg \<and>
       zereh_parse_route doc (doc it) c = Some r) its rs \<and> (its \<noteq> [] \<longrightarrow> length rs \<le> 1024)"
    using routes_loop_ok [OF its(2)] by simp
  then obtain rs where rs: "cfg' = cfg\<lparr>c_routes := rs\<rparr>" "its \<noteq> [] \<longrightarrow> length rs \<le> 1024"
    and all: "list_all2 (\<lambda>it r. \<exists>c. c_hash_algo c = c_hash_algo cfg \<and> c_default_kernel_port c = c_default_kernel_port cfg \<and>
       zereh_parse_route doc (doc it) c = Some r) its rs" by blast
  have "list_all2 (\<lambda>it r. zereh_parse_route doc (doc it) cfg = Some r) its rs"
    using all by (rule list_all2_mono) (metis parse_route_cong)
  then show thesis using that its rs by (cases "its = []") auto
qed

subsection \<open>The configuration\<close>

text \<open>Before the routes: buffers and lists within bounds, no route yet.\<close>

definition cfg_inv :: "zereh_config \<Rightarrow> bool" where
  "cfg_inv c \<longleftrightarrow> config_buffers_ok c \<and> c_routes c = []"

lemma opcodes_loop_inv: "cfg_inv c \<Longrightarrow> cfg_inv (fst (opcodes_loop doc its c))"
proof (induction its arbitrary: c)
  case (Cons it its)
  have "cfg_inv (c\<lparr>c_allowed_opcode_mask := m\<rparr>)" for m using Cons.prems by (simp add: cfg_inv_def config_buffers_ok_def)
  then show ?case using Cons by (auto split: option.splits)
qed (auto simp: cfg_inv_def config_buffers_ok_def)

lemma keeps_opcodes: "keeps cfg_inv (zereh_parse_allowed_opcodes doc n)"
proof -
  have "cfg_inv (c\<lparr>c_allowed_opcode_mask := m\<rparr>)" if "cfg_inv c" for m c
    using that by (simp add: cfg_inv_def config_buffers_ok_def)
  then show ?thesis
    unfolding keeps_def zereh_parse_allowed_opcodes_def
    by (auto simp: Let_def opcodes_loop_inv split: yaml_node.splits option.splits)
qed

lemma blacklist_cidr_no_NUL: "blacklist_cidr doc n = Some t \<Longrightarrow> CHR 0x00 \<notin> set t"
  using zereh_scalar_no_NUL by (auto simp: blacklist_cidr_def split: yaml_node.splits)

lemma blacklist_loop_inv: "cfg_inv c \<Longrightarrow> cfg_inv (fst (blacklist_loop doc its c))"
proof (induction its arbitrary: c)
  case (Cons it its)
  have "cfg_inv (c\<lparr>c_blacklist := c_blacklist c @ [snprintf_s 64 t]\<rparr>)"
    if "length (c_blacklist c) < 1024" "blacklist_cidr doc e = Some t" for t e
    using that Cons.prems blacklist_cidr_no_NUL [OF that(2)]
    by (auto simp: cfg_inv_def config_buffers_ok_def)
  then show ?case using Cons by (auto split: option.splits)
qed simp

lemma keeps_blacklist: "keeps cfg_inv (zereh_parse_blacklist doc n)"
proof -
  have "cfg_inv (c\<lparr>c_blacklist := []\<rparr>)" if "cfg_inv c" for c
    using that by (simp add: cfg_inv_def config_buffers_ok_def)
  then show ?thesis
    unfolding keeps_def zereh_parse_blacklist_def by (auto simp: blacklist_loop_inv split: yaml_node.splits)
qed

lemma keeps_hash_algorithm: "keeps cfg_inv (zereh_parse_hash_algorithm n)"
  by (auto simp: keeps_def zereh_parse_hash_algorithm_def cfg_inv_def config_buffers_ok_def intro!: fits_snprintf_s split: option.splits)

lemma keeps_config_steps: "keeps cfg_inv (run_steps (config_steps doc root))"
proof (rule keeps_run_steps)
  have "list_all (keeps cfg_inv) (interface_steps doc v)" for v
    by (auto simp: interface_steps_def cfg_inv_def config_buffers_ok_def intro!: keeps_intros)
  moreover have "list_all (keeps cfg_inv) (packet_filter_steps doc v key)" for v key
    by (auto simp: packet_filter_steps_def cfg_inv_def config_buffers_ok_def
        intro!: keeps_intros keeps_opcodes keeps_blacklist)
  moreover have "keeps cfg_inv (zereh_parse_codegen_options doc root)"
    by (auto simp: zereh_parse_codegen_options_def Let_def cfg_inv_def config_buffers_ok_def
        intro!: keeps_intros keeps_hash_algorithm)
  ultimately show "list_all (keeps cfg_inv) (config_steps doc root)"
    by (auto simp: config_steps_def zereh_parse_global_section_def zereh_parse_global_filters_def
        cfg_inv_def config_buffers_ok_def intro!: keeps_intros)
qed

lemma parse_config_ok:
  assumes "zereh_parse_config_yaml loaded = (cfg, True)"
  obtains doc root its cfg0 where "loaded = Some (doc, root)" "zereh_map_get doc root ''routes'' = Some (YAML_SEQUENCE_NODE its)"
    "run_steps (config_steps doc root) zereh_config_init_defaults = (cfg0, True)"
    "cfg = cfg0\<lparr>c_routes := c_routes cfg\<rparr>" "c_routes cfg \<noteq> []" "config_wf cfg"
    "list_all2 (\<lambda>it r. zereh_parse_route doc (doc it) cfg = Some r) its (c_routes cfg)"
proof -
  from assms obtain doc root cfg0 node where l: "loaded = Some (doc, root)"
    and st: "run_steps (config_steps doc root) zereh_config_init_defaults = (cfg0, True)"
    and n: "zereh_map_get doc root ''routes'' = Some node" "zereh_parse_routes doc node cfg0 = (cfg, True)"
    and ne: "c_routes cfg \<noteq> []"
    by (auto simp: zereh_parse_config_yaml_def Let_def split: option.splits if_splits prod.splits)
  have "cfg_inv zereh_config_init_defaults"
    using init_defaults_buffers_ok by (simp add: cfg_inv_def zereh_config_init_defaults_def)
  then have inv: "cfg_inv cfg0" using keepsD [OF keeps_config_steps st] by blast
  obtain its rs where rs: "node = YAML_SEQUENCE_NODE its" "cfg = cfg0\<lparr>c_routes := rs\<rparr>" "length rs \<le> 1024"
      "list_all2 (\<lambda>it r. zereh_parse_route doc (doc it) cfg0 = Some r) its rs"
    using parse_routes_ok [OF n(2)] by metis
  have "list_all route_wf rs"
    using rs(4) parse_route_ok(1) by (auto simp: list_all_length list_all2_conv_all_nth)
  then have wf: "config_wf cfg"
    using inv rs(2,3) by (simp add: config_wf_def cfg_inv_def config_buffers_ok_def)
  have "list_all2 (\<lambda>it r. zereh_parse_route doc (doc it) cfg = Some r) its (c_routes cfg)"
    using rs(2,4) parse_route_cong [of cfg cfg0] by simp
  then show thesis using that l n st ne wf rs by simp
qed

lemma parsed_routes_hash:
  assumes "zereh_parse_config_yaml loaded = (cfg, True)" and "r \<in> set (c_routes cfg)"
  shows "r_hash r = zereh_hash_domain (r_domain r) (c_hash_algo cfg)"
proof -
  obtain doc its where "list_all2 (\<lambda>it r. zereh_parse_route doc (doc it) cfg = Some r) its (c_routes cfg)"
    using parse_config_ok [OF assms(1)] by metis
  then obtain it where "zereh_parse_route doc (doc it) cfg = Some r"
    using assms(2) by (auto simp: list_all2_conv_all_nth in_set_conv_nth)
  then show ?thesis by (rule parse_route_ok(2))
qed

section \<open>A sample document\<close>

text \<open>
  The document \<open>routes: [{domain: Ab.c, target: kernel_space}]\<close>, as libyaml numbers its nodes.
\<close>

definition sample_doc :: yaml_doc where
  "sample_doc i = (if i = 1 then Some (YAML_MAPPING_NODE [(2, 3)])
     else if i = 2 then Some (YAML_SCALAR_NODE ''routes'')
     else if i = 3 then Some (YAML_SEQUENCE_NODE [4])
     else if i = 4 then Some (YAML_MAPPING_NODE [(5, 6), (7, 8)])
     else if i = 5 then Some (YAML_SCALAR_NODE ''domain'')
     else if i = 6 then Some (YAML_SCALAR_NODE ''Ab.c'')
     else if i = 7 then Some (YAML_SCALAR_NODE ''target'')
     else if i = 8 then Some (YAML_SCALAR_NODE ''kernel_space'')
     else None)"

lemma sample_doc_lookups:
  "zereh_map_get sample_doc (sample_doc 1) key = (if key = ''routes'' then Some (YAML_SEQUENCE_NODE [4]) else None)"
  "zereh_map_get sample_doc (sample_doc 4) key =
     (if key = ''domain'' then Some (YAML_SCALAR_NODE ''Ab.c'')
      else if key = ''target'' then Some (YAML_SCALAR_NODE ''kernel_space'') else None)"
  by (auto simp: zereh_map_get_def sample_doc_def)

lemma sample_route_ex:
  "\<exists>r. zereh_parse_route sample_doc (sample_doc 4) cfg = Some r \<and> r_domain r = ''Ab.c'' \<and>
     r_target r = ZEREH_TARGET_KERNEL_SPACE"
proof -
  have m: "is_mapping (sample_doc 4)" by (simp add: sample_doc_def is_mapping_def)
  have t: "zereh_parse_target ''kernel_space'' = Some ZEREH_TARGET_KERNEL_SPACE"
    by (simp add: zereh_parse_target_def strcasecmp_def c_tolower_def)
  show ?thesis
    using m t
    by (simp add: zereh_parse_route_def sample_doc_lookups map_get2_def zereh_scalar_def cstr_def route_steps_def
      set_field_def copy_field_def sub_parse_def route_init_def label_defaults_def length_defaults_def
      route_finish_def snprintf_s_def Let_def)
qed

lemma sample_config:
  "\<exists>r. zereh_parse_config_yaml (Some (sample_doc, sample_doc 1)) = (zereh_config_init_defaults\<lparr>c_routes := [r]\<rparr>, True) \<and>
     r_domain r = ''Ab.c'' \<and> r_target r = ZEREH_TARGET_KERNEL_SPACE"
proof -
  have m: "is_mapping (sample_doc 1)" by (simp add: sample_doc_def is_mapping_def)
  have st: "run_steps (config_steps sample_doc (sample_doc 1)) cfg = (cfg, True)" for cfg
    by (simp add: config_steps_def zereh_parse_global_section_def zereh_parse_global_filters_def
      zereh_parse_codegen_options_def interface_steps_def packet_filter_steps_def in_mapping_def is_mapping_def
      sub_parse_def set_field_def copy_field_def zereh_scalar_def sample_doc_lookups Let_def)
  let ?c = "zereh_config_init_defaults\<lparr>c_routes := []\<rparr>"
  obtain r where r: "zereh_parse_route sample_doc (sample_doc 4) ?c = Some r" "r_domain r = ''Ab.c''"
      "r_target r = ZEREH_TARGET_KERNEL_SPACE"
    using sample_route_ex by blast
  have "zereh_parse_routes sample_doc (YAML_SEQUENCE_NODE [4]) zereh_config_init_defaults = (?c\<lparr>c_routes := [r]\<rparr>, True)"
    using r(1) by (simp add: zereh_parse_routes_def)
  then show ?thesis
    using m st r(2,3) by (intro exI [of _ r]) (simp add: zereh_parse_config_yaml_def sample_doc_lookups Let_def)
qed

lemma sample_config_ex:
  "\<exists>cfg. zereh_parse_config_yaml (Some (sample_doc, sample_doc 1)) = (cfg, True) \<and>
     map r_domain (c_routes cfg) = [''Ab.c'']"
  using sample_config by (elim exE conjE) (rule exI, rule conjI, assumption, simp)

section \<open>Properties\<close>

text \<open>
  (C20) An accepted configuration is well-formed: every string fits its buffer, the blacklist
  and the route table are within their limits, every route satisfies the bounds that the
  generated code and the loader rely on, there is at least one route, and each route's hash
  is the hash of its domain under the algorithm the configuration finally selects.
\<close>

theorem accepted_config_wf:
  assumes "zereh_parse_config_yaml loaded = (cfg, True)"
  shows "config_wf cfg \<and> c_routes cfg \<noteq> [] \<and>
    (\<forall>r \<in> set (c_routes cfg). r_hash r = zereh_hash_domain (r_domain r) (c_hash_algo cfg))"
  using parse_config_ok [OF assms] parsed_routes_hash [OF assms] by metis

theorem accepted_config_wf_witness:
  "\<exists>cfg. zereh_parse_config_yaml (Some (sample_doc, sample_doc 1)) = (cfg, True) \<and> config_wf cfg \<and>
     map r_domain (c_routes cfg) = [''Ab.c'']"
proof -
  obtain cfg where cfg: "zereh_parse_config_yaml (Some (sample_doc, sample_doc 1)) = (cfg, True)"
      "map r_domain (c_routes cfg) = [''Ab.c'']"
    using sample_config_ex by (elim exE conjE)
  then show ?thesis using accepted_config_wf [OF cfg(1)] by (intro exI [of _ cfg]) simp
qed

text \<open>
  (C21) Routes are all or nothing and keep their order: in an accepted configuration the
  \<open>routes\<close> key is a sequence, there is exactly one route per item, the n-th route being
  what \<open>zereh_parse_route\<close> makes of the n-th item; each item has a non-empty domain, of
  which the route keeps the first 255 characters, and a recognised target.
\<close>

theorem routes_all_or_nothing:
  assumes "zereh_parse_config_yaml (Some (doc, root)) = (cfg, True)"
  shows "\<exists>its. zereh_map_get doc root ''routes'' = Some (YAML_SEQUENCE_NODE its) \<and>
    list_all2 (\<lambda>it r. zereh_parse_route doc (doc it) cfg = Some r \<and>
      (\<exists>d t. zereh_scalar (zereh_map_get doc (doc it) ''domain'') = Some d \<and> d \<noteq> [] \<and> r_domain r = take 255 d \<and>
             zereh_scalar (map_get2 doc (doc it) ''target_type'' ''target'') = Some t \<and>
             zereh_parse_target t = Some (r_target r))) its (c_routes cfg)"
proof -
  obtain its where its: "zereh_map_get doc root ''routes'' = Some (YAML_SEQUENCE_NODE its)"
    "list_all2 (\<lambda>it r. zereh_parse_route doc (doc it) cfg = Some r) its (c_routes cfg)"
    using parse_config_ok [OF assms] by (metis option.inject prod.inject)
  then show ?thesis
    using parse_route_source by (intro exI [of _ its] conjI) (auto elim!: list_all2_mono)
qed

theorem routes_all_or_nothing_witness:
  "\<exists>cfg its. zereh_parse_config_yaml (Some (sample_doc, sample_doc 1)) = (cfg, True) \<and>
     zereh_map_get sample_doc (sample_doc 1) ''routes'' = Some (YAML_SEQUENCE_NODE its) \<and>
     length its = length (c_routes cfg)"
proof -
  obtain cfg where cfg: "zereh_parse_config_yaml (Some (sample_doc, sample_doc 1)) = (cfg, True)"
    using sample_config_ex by blast
  then show ?thesis using routes_all_or_nothing [OF cfg] list_all2_lengthD by blast
qed

text \<open>
  (C22) Numbers are read exactly: for each of the three widths, the decimal text of a number
  parses to that number if it fits the field and is refused if it does not, however large
  it is; nothing is truncated or wraps.
\<close>

theorem numbers_exact:
  "zereh_parse_u32 (Some (YAML_SCALAR_NODE (dec_of n))) = (if n < 2 ^ 32 then Some (of_nat n) else None) \<and>
   zereh_parse_u16 (Some (YAML_SCALAR_NODE (dec_of n))) = (if n < 2 ^ 16 then Some (of_nat n) else None) \<and>
   zereh_parse_u8 (Some (YAML_SCALAR_NODE (dec_of n))) = (if n < 2 ^ 8 then Some (of_nat n) else None)"
  using u32_parser.parse_dec [of n] u16_parser.parse_dec [of n] u8_parser.parse_dec [of n] by simp

text \<open>
  A sign is not refused: \<open>strtoul\<close> negates modulo \<open>2 ^ 64\<close>, and a text whose negated value
  is small is accepted.
\<close>

lemma negative_number_accepted:
  "zereh_parse_u32 (Some (YAML_SCALAR_NODE ''-18446744073709551615'')) = Some 1"
  by (simp add: zereh_parse_u32_def zereh_scalar_def cstr_def strtoul10_def strto_sign_def c_isspace_def
      c_isdigit_def digits_val_def)

end
