(* ===== verification/Zereh_Io.thy ===== *)
theory Zereh_Io
  imports Zereh_Libc
begin

text \<open>
  The file and log helpers of the control plane: \<open>zereh_read_file\<close> and
  \<open>zereh_write_file\<close> of \<open>control/codegen.c\<close>, and the logging functions of
  \<open>control/loader.c\<close>.

  The C library's streams are the record \<open>stdio\<close>: whether a path opens, the results of the
  two \<open>fseek\<close> and of \<open>ftell\<close>, the bytes \<open>fread\<close> delivers for a requested count and the
  count \<open>fwrite\<close> reports. Opening and closing a stream are events. The environment variable
  \<open>ZEREH_LOG_MODE\<close> and the broken-down time are parameters of the log functions, the two
  static variables that cache the mode are their state.
\<close>

section \<open>Definitions\<close>

subsection \<open>Files\<close>

datatype file_event = Opened string | Closed string

record stdio =
  f_open_rb :: "string \<Rightarrow> bool"
  f_seek_end :: "string \<Rightarrow> int"
  f_tell :: "string \<Rightarrow> int"
  f_seek_set :: "string \<Rightarrow> int"
  f_read :: "string \<Rightarrow> nat \<Rightarrow> string"
  f_open_wb :: "string \<Rightarrow> bool"
  f_write :: "string \<Rightarrow> string \<Rightarrow> nat"

text \<open>The content, or \<open>None\<close> for -1, and what happened to the stream.\<close>

definition zereh_read_file :: "stdio \<Rightarrow> (nat \<Rightarrow> bool) \<Rightarrow> string \<Rightarrow> string option \<times> file_event list" where
  "zereh_read_file io mem path = (
     if \<not> f_open_rb io path then (None, [])
     else if f_seek_end io path \<noteq> 0 then (None, [Opened path, Closed path])
     else let size = f_tell io path in
     if size < 0 then (None, [Opened path, Closed path])
     else if f_seek_set io path \<noteq> 0 then (None, [Opened path, Closed path])
     else if \<not> mem (nat size + 1) then (None, [Opened path, Closed path])
     else let buf = f_read io path (nat size) in
     if length buf \<noteq> nat size then (None, [Opened path, Closed path])
     else (Some buf, [Opened path, Closed path]))"

definition zereh_write_file :: "stdio \<Rightarrow> string \<Rightarrow> string \<Rightarrow> bool \<times> file_event list" where
  "zereh_write_file io path content = (
     if \<not> f_open_wb io path then (False, [])
     else let len = length (cstr content) in
     if f_write io path (cstr content) \<noteq> len then (False, [Opened path, Closed path])
     else (True, [Opened path, Closed path]))"

subsection \<open>Log messages\<close>

record log_state =
  l_initialized :: bool
  l_enabled :: bool

definition zereh_structured_logs_enabled :: "string option \<Rightarrow> log_state \<Rightarrow> bool \<times> log_state" where
  "zereh_structured_logs_enabled mode st = (
     let st = (if \<not> l_initialized st
               then st\<lparr>l_enabled := (mode = Some ''structured''), l_initialized := True\<rparr> else st)
     in (l_enabled st, st))"

text \<open>\<open>tm\<close> is the text \<open>strftime\<close> makes of the time, \<open>None\<close> if \<open>gmtime_r\<close> fails.\<close>

definition zereh_log_timestamp_utc :: "string option \<Rightarrow> nat \<Rightarrow> string" where
  "zereh_log_timestamp_utc tm out_len = (case tm of Some t \<Rightarrow> t | None \<Rightarrow> snprintf_s out_len ''unknown'')"

text \<open>Each store into \<open>out\<close> is checked against its length, the terminator's included.\<close>

fun log_sanitize_loop :: "nat \<Rightarrow> nat \<Rightarrow> string \<Rightarrow> string cres" where
  "log_sanitize_loop out_len j [] = Ret []"
| "log_sanitize_loop out_len j (c # cs) =
     (if j + 1 < out_len
      then (let c = (if c = CHR 0x22 then CHR 0x27
                     else if c = CHR 0x0A \<or> c = CHR 0x0D \<or> c = CHR 0x09 then CHR '' '' else c)
            in cres_bind (in_buf j out_len) (\<lambda>_.
               cres_bind (log_sanitize_loop out_len (j + 1) cs) (\<lambda>out. Ret (c # out))))
      else Ret [])"

definition zereh_log_sanitize_message :: "string \<Rightarrow> nat \<Rightarrow> string cres" where
  "zereh_log_sanitize_message msg out_len =
     (if out_len = 0 then Ret [] else
      cres_bind (log_sanitize_loop out_len 0 msg) (\<lambda>out.
      cres_bind (in_buf (length out) out_len) (\<lambda>_. Ret out)))"

text \<open>The line printed for a formatted message.\<close>

definition zereh_log_emit :: "string option \<Rightarrow> string option \<Rightarrow> string \<Rightarrow> string \<Rightarrow> log_state \<Rightarrow> string \<times> log_state" where
  "zereh_log_emit mode tm level formatted st = (
     let message = snprintf_s 512 formatted in
     case zereh_structured_logs_enabled mode st of (enabled, st) \<Rightarrow>
     if enabled then
       let ts = zereh_log_timestamp_utc tm 32; sanitized = the_ret (zereh_log_sanitize_message message 512) in
       (''ts='' @ ts @ '' level='' @ level @ '' component=loader msg='' @ [CHR 0x22] @ sanitized @ [CHR 0x22, CHR 0x0A], st)
     else (''[loader] ['' @ level @ ''] '' @ message @ [CHR 0x0A], st))"

section \<open>Lemmas\<close>

text \<open>A read returns the whole file or nothing, and the stream is closed on every path.\<close>

lemma read_file_whole:
  "fst (zereh_read_file io mem path) = Some buf \<Longrightarrow>
     0 \<le> f_tell io path \<and> length buf = nat (f_tell io path) \<and> buf = f_read io path (nat (f_tell io path))"
  by (auto simp: zereh_read_file_def Let_def split: if_splits)

lemma files_closed:
  "snd (zereh_read_file io mem path) \<in> {[], [Opened path, Closed path]}"
  "snd (zereh_write_file io path content) \<in> {[], [Opened path, Closed path]}"
  by (auto simp: zereh_read_file_def zereh_write_file_def Let_def)

lemma log_sanitize_loop_Ret:
  "j < n \<Longrightarrow> \<exists>out. log_sanitize_loop n j s = Ret out \<and> length out + j < n \<and>
     set out \<inter> {CHR 0x22, CHR 0x0A, CHR 0x0D, CHR 0x09} = {}"
proof (induction n j s rule: log_sanitize_loop.induct)
  case (2 n j c cs)
  then show ?case by (cases "j + 1 < n") (fastforce simp: Let_def)+
qed simp

text \<open>A message never overruns the buffer it is copied to, and what is stored is clean.\<close>

lemma log_sanitize_Ret:
  assumes "0 < n"
  shows "\<exists>out. zereh_log_sanitize_message msg n = Ret out \<and> length out < n \<and>
     set out \<inter> {CHR 0x22, CHR 0x0A, CHR 0x0D, CHR 0x09} = {}"
  using log_sanitize_loop_Ret [OF assms, of msg] assms by (auto simp: zereh_log_sanitize_message_def)

text \<open>The mode is read once: later changes of the environment have no effect.\<close>

lemma log_mode_cached:
  "snd (zereh_structured_logs_enabled mode st) = st' \<Longrightarrow>
     zereh_structured_logs_enabled mode' st' = (fst (zereh_structured_logs_enabled mode st), st')"
  by (cases "l_initialized st") (auto simp: zereh_structured_logs_enabled_def Let_def)

text \<open>
  A structured log line cannot be broken by what is logged: whatever the message contains,
  the line has one line break, at its end, and exactly the two quotes around the message
  field, provided the level and the time have none; and the message fits its buffer.
\<close>

lemma structured_line_intact:
  assumes "fst (zereh_structured_logs_enabled mode st)" and "CHR 0x22 \<notin> set level" and "CHR 0x0A \<notin> set level"
    and "\<forall>t. tm = Some t \<longrightarrow> CHR 0x22 \<notin> set t \<and> CHR 0x0A \<notin> set t"
  shows "\<exists>pre msg. fst (zereh_log_emit mode tm level formatted st) = pre @ [CHR 0x22] @ msg @ [CHR 0x22, CHR 0x0A] \<and>
    CHR 0x22 \<notin> set pre \<and> CHR 0x0A \<notin> set pre \<and> set msg \<inter> {CHR 0x22, CHR 0x0A, CHR 0x0D, CHR 0x09} = {} \<and> length msg < 512"
proof -
  let ?ts = "zereh_log_timestamp_utc tm 32" and ?msg = "the_ret (zereh_log_sanitize_message (snprintf_s 512 formatted) 512)"
  have "CHR 0x22 \<notin> set ?ts" "CHR 0x0A \<notin> set ?ts"
    using assms(4) by (auto simp: zereh_log_timestamp_utc_def snprintf_s_fits split: option.splits)
  moreover have "set ?msg \<inter> {CHR 0x22, CHR 0x0A, CHR 0x0D, CHR 0x09} = {}" "length ?msg < 512"
    using log_sanitize_Ret [of 512 "snprintf_s 512 formatted"] by auto
  moreover have "fst (zereh_log_emit mode tm level formatted st) =
      (''ts='' @ ?ts @ '' level='' @ level @ '' component=loader msg='') @ [CHR 0x22] @ ?msg @ [CHR 0x22, CHR 0x0A]"
    using assms(1) by (simp add: zereh_log_emit_def split_beta Let_def)
  ultimately show ?thesis
    using assms(2,3)
    by (intro exI [of _ "''ts='' @ ?ts @ '' level='' @ level @ '' component=loader msg=''"] exI [of _ ?msg]) simp
qed

end
