(* ===== verification/Zereh_Main.thy ===== *)
theory Zereh_Main
  imports Zereh_Loader Zereh_Codegen Zereh_Yaml Zereh_Io
begin

text \<open>
  The command line tool (\<open>control/main.c\<close>) and the invocation of the compiler
  (\<open>control/compiler.c\<close>).

  What is outside the program is the record \<open>platform\<close>: the document libyaml loads from a
  path, whether allocations succeed, the files, the result of running \<open>clang\<close> and the
  kernel. A run gives the exit status, what is printed on the standard output and the list
  of its effects in order: a source file written completely, \<open>clang\<close> run with its
  arguments, a call of libbpf or the kernel. Messages on the standard error are left out.
\<close>

section \<open>Definitions\<close>

subsection \<open>Running the compiler\<close>

datatype arch = X86_64 | Aarch64 | Other_arch

text \<open>What became of the child process; \<open>Waited\<close> has the status \<open>waitpid\<close> stored.\<close>

datatype child = Fork_failed | Wait_failed | Waited u32

definition WIFEXITED :: "u32 \<Rightarrow> bool" where
  "WIFEXITED status \<longleftrightarrow> status AND 0x7F = 0"

definition WEXITSTATUS :: "u32 \<Rightarrow> u32" where
  "WEXITSTATUS status = drop_bit 8 (status AND 0xFF00)"

text \<open>\<open>argv[argc++] = a;\<close> into an array of \<open>cap\<close> entries, and the final null pointer\<close>

fun push_args :: "nat \<Rightarrow> string list \<Rightarrow> string list \<Rightarrow> string list cres" where
  "push_args cap argv [] = Ret argv"
| "push_args cap argv (a # as) = (if length argv < cap then push_args cap (argv @ [a]) as else Fault)"

definition end_args :: "nat \<Rightarrow> string list \<Rightarrow> string list cres" where
  "end_args cap argv = (if length argv < cap then Ret argv else Fault)"

definition compile_args :: "arch \<Rightarrow> zereh_config \<Rightarrow> string list cres" where
  "compile_args arch cfg =
     cres_bind (push_args 20 [] [''clang'', ''-O3'', ''-g'', ''-target'', ''bpf'', ''-D__TARGET_ARCH_x86'', ''-Wall'', ''-Werror'']) (\<lambda>argv.
     cres_bind (if c_optimize_jump_tables cfg = 0 then push_args 20 argv [''-fno-jump-tables''] else Ret argv) (\<lambda>argv.
     cres_bind (push_args 20 argv [''-I./xdp'', ''-I./include'', ''-I/usr/include'']) (\<lambda>argv.
     cres_bind (case arch of
         X86_64 \<Rightarrow> push_args 20 argv [''-I/usr/include/x86_64-linux-gnu'']
       | Aarch64 \<Rightarrow> push_args 20 argv [''-I/usr/include/aarch64-linux-gnu'']
       | Other_arch \<Rightarrow> Ret argv) (\<lambda>argv.
     cres_bind (push_args 20 argv [''-c'', c_generated_source cfg, ''-o'', c_generated_object cfg]) (\<lambda>argv.
     end_args 20 argv)))))"

text \<open>The arguments and whether the function returns 0.\<close>

definition zereh_compile_generated_bpf :: "arch \<Rightarrow> (string list \<Rightarrow> child) \<Rightarrow> zereh_config \<Rightarrow> (string list \<times> bool) cres" where
  "zereh_compile_generated_bpf arch spawn cfg = cres_bind (compile_args arch cfg) (\<lambda>argv.
     case spawn argv of
       Fork_failed \<Rightarrow> Ret (argv, False)
     | Wait_failed \<Rightarrow> Ret (argv, False)
     | Waited status \<Rightarrow>
         if \<not> WIFEXITED status \<or> WEXITSTATUS status \<noteq> 0 then Ret (argv, False) else Ret (argv, True))"

subsection \<open>The command line\<close>

datatype event = Wrote string string | Ran "string list" | Kernel bpf_call

record platform =
  p_yaml :: "string \<Rightarrow> (yaml_doc \<times> yaml_node option) option"
  p_mem :: "nat \<Rightarrow> bool"
  p_stdio :: stdio
  p_arch :: arch
  p_spawn :: "string list \<Rightarrow> child"
  p_libbpf :: libbpf
  p_alloc :: bool
  p_build :: "string \<times> string \<times> string"

record outcome =
  o_status :: int
  o_stdout :: string
  o_events :: "event list"

definition read_of :: "platform \<Rightarrow> string \<Rightarrow> string option" where
  "read_of p path = fst (zereh_read_file (p_stdio p) (p_mem p) path)"

definition written :: "platform \<Rightarrow> string \<Rightarrow> string \<Rightarrow> bool" where
  "written p path content = fst (zereh_write_file (p_stdio p) path content)"

definition exit_with :: "int \<Rightarrow> event list \<Rightarrow> outcome cres" where
  "exit_with status evs = Ret \<lparr>o_status = status, o_stdout = [], o_events = evs\<rparr>"

definition print_line :: "string \<Rightarrow> string" where
  "print_line t = t @ NL"

text \<open>A domain that does not fit the buffer it is normalised into is a fault of the command.\<close>

definition hash_command :: "string list \<Rightarrow> outcome cres" where
  "hash_command argv = (
     if length argv < 3 then exit_with 1 []
     else
       let print = (\<lambda>algo. cres_bind (zereh_normalize_domain (argv ! 2) (ZEREH_MAX_DOMAIN_LEN + 1)) (\<lambda>_.
         Ret \<lparr>o_status = 0,
           o_stdout = print_line (''0x'' @ hex_pad 16 (unat (zereh_hash_domain (argv ! 2) algo))), o_events = []\<rparr>)) in
       if length argv \<ge> 4 then
         if strcasecmp (argv ! 3) ''siphash'' then print ZEREH_HASH_SIPHASH
         else if strcasecmp (argv ! 3) ''fnv1a'' \<or> strcasecmp (argv ! 3) ''fnv-1a'' then print ZEREH_HASH_FNV1A
         else exit_with 1 []
       else print ZEREH_HASH_FNV1A)"

definition version_command :: "platform \<Rightarrow> outcome cres" where
  "version_command p = (case p_build p of (version, revision, timestamp) \<Rightarrow>
     Ret \<lparr>o_status = 0, o_stdout = concat (map print_line [
       ''zereh version: '' @ version,
       ''zereh revision: '' @ revision,
       ''zereh build timestamp (UTC): '' @ timestamp,
       ''license: AGPL-3.0-or-later'',
       ''commercial holder: IO-SEC Nordic AB'',
       ''commercial contact: commercial-license@io-sec.eu'']), o_events = []\<rparr>)"

text \<open>\<open>for (i = 2; i < argc; i++)\<close>: the path and the override, or the usage message\<close>

fun options_loop :: "string list \<Rightarrow> string \<Rightarrow> string option \<Rightarrow> (string \<times> string option) option" where
  "options_loop [] config_path ifname_override = Some (config_path, ifname_override)"
| "options_loop [a] config_path ifname_override = None"
| "options_loop (a # v # as) config_path ifname_override =
     (if a = ''-c'' then options_loop as v ifname_override
      else if a = ''-i'' then options_loop as config_path (Some v)
      else None)"

definition kernel_events :: "(bpf_call list, bool) state \<Rightarrow> bool \<times> event list" where
  "kernel_events m = (case run_state m [] of (ok, calls) \<Rightarrow> (ok, map Kernel calls))"

definition unload_command :: "platform \<Rightarrow> string \<Rightarrow> string option \<Rightarrow> outcome cres" where
  "unload_command p config_path ifname_override = (
     case zereh_parse_config_yaml (p_yaml p config_path) of (cfg, ok) \<Rightarrow>
     if \<not> ok \<and> ifname_override = None then exit_with 1 []
     else case kernel_events (zereh_detach_xdp (p_libbpf p) cfg ifname_override) of (ok, evs) \<Rightarrow>
       exit_with (if ok then 0 else 1) evs)"

text \<open>\<open>zereh_generate_xdp_source\<close>, then \<open>zereh_compile_generated_bpf\<close>\<close>

definition generate_and_compile :: "platform \<Rightarrow> zereh_config \<Rightarrow> (bool \<times> event list) cres" where
  "generate_and_compile p cfg = (
     case zereh_generate_xdp_source (p_mem p) (read_of p) (written p) cfg of
       Fault \<Rightarrow> Fault
     | Err \<Rightarrow> Ret (False, [])
     | Ret (path, content) \<Rightarrow>
         cres_bind (zereh_compile_generated_bpf (p_arch p) (p_spawn p) cfg) (\<lambda>(argv, ok).
         Ret (ok, [Wrote path content, Ran argv])))"

definition generate_command :: "platform \<Rightarrow> zereh_config \<Rightarrow> outcome cres" where
  "generate_command p cfg = cres_bind (generate_and_compile p cfg) (\<lambda>(ok, evs).
     if \<not> ok then exit_with 1 evs
     else Ret \<lparr>o_status = 0,
       o_stdout = print_line (''generated and compiled: '' @ c_generated_source cfg @ '' -> '' @ c_generated_object cfg),
       o_events = evs\<rparr>)"

definition load_command :: "platform \<Rightarrow> zereh_config \<Rightarrow> string option \<Rightarrow> outcome cres" where
  "load_command p cfg ifname_override = (
     case kernel_events (zereh_load_and_swap_xdp (p_libbpf p) cfg ifname_override) of (ok, evs) \<Rightarrow>
     exit_with (if ok then 0 else 1) evs)"

definition generate_load_command :: "platform \<Rightarrow> zereh_config \<Rightarrow> string option \<Rightarrow> outcome cres" where
  "generate_load_command p cfg ifname_override = cres_bind (generate_and_compile p cfg) (\<lambda>(ok, evs).
     if \<not> ok then exit_with 1 evs
     else case kernel_events (zereh_load_and_swap_xdp (p_libbpf p) cfg ifname_override) of (ok, kevs) \<Rightarrow>
       exit_with (if ok then 0 else 1) (evs @ kevs))"

definition zereh_main :: "platform \<Rightarrow> string list \<Rightarrow> outcome cres" where
  "zereh_main p argv = (
     if length argv < 2 then exit_with 1 [] else
     let cmd = argv ! 1 in
     if cmd = ''hash'' then hash_command argv
     else if cmd = ''version'' then version_command p
     else if \<not> p_alloc p then exit_with 1 []
     else case options_loop (drop 2 argv) ''config.yaml'' None of
       None \<Rightarrow> exit_with 1 []
     | Some (config_path, ifname_override) \<Rightarrow>
         if cmd = ''unload'' then unload_command p config_path ifname_override
         else case zereh_parse_config_yaml (p_yaml p config_path) of (cfg, ok) \<Rightarrow>
           if \<not> ok then exit_with 1 []
           else if cmd = ''generate'' then generate_command p cfg
           else if cmd = ''load'' then load_command p cfg ifname_override
           else if cmd = ''generate-load'' then generate_load_command p cfg ifname_override
           else exit_with 1 [])"

section \<open>The compiler's arguments\<close>

lemma push_args_fit: "length argv + length as \<le> cap \<Longrightarrow> push_args cap argv as = Ret (argv @ as)"
  by (induction as arbitrary: argv) auto

definition flags_of :: "arch \<Rightarrow> zereh_config \<Rightarrow> string list" where
  "flags_of arch cfg = [''clang'', ''-O3'', ''-g'', ''-target'', ''bpf'', ''-D__TARGET_ARCH_x86'', ''-Wall'', ''-Werror''] @
     (if c_optimize_jump_tables cfg = 0 then [''-fno-jump-tables''] else []) @
     [''-I./xdp'', ''-I./include'', ''-I/usr/include''] @
     (case arch of X86_64 \<Rightarrow> [''-I/usr/include/x86_64-linux-gnu''] | Aarch64 \<Rightarrow> [''-I/usr/include/aarch64-linux-gnu''] | Other_arch \<Rightarrow> []) @
     [''-c'', c_generated_source cfg, ''-o'', c_generated_object cfg]"

lemma compile_args_eq: "compile_args arch cfg = Ret (flags_of arch cfg)"
  by (cases arch) (simp_all add: compile_args_def flags_of_def push_args_fit end_args_def)

definition compiles :: "platform \<Rightarrow> zereh_config \<Rightarrow> bool" where
  "compiles p cfg \<longleftrightarrow> (\<exists>status. p_spawn p (flags_of (p_arch p) cfg) = Waited status \<and> WIFEXITED status \<and> WEXITSTATUS status = 0)"

lemma compile_eq: "zereh_compile_generated_bpf (p_arch p) (p_spawn p) cfg = Ret (flags_of (p_arch p) cfg, compiles p cfg)"
  by (cases "p_spawn p (flags_of (p_arch p) cfg)") (auto simp: zereh_compile_generated_bpf_def compile_args_eq compiles_def)

section \<open>Generating and compiling\<close>

lemma generate_source_cases:
  assumes "config_wf cfg"
  obtains (failed) "zereh_generate_xdp_source mem rf wr cfg = Err"
  | (written) template where "rf (c_template_path cfg) = Some template" "wr (c_generated_source cfg) (source_of cfg template)"
      "zereh_generate_xdp_source mem rf wr cfg = Ret (c_generated_source cfg, source_of cfg template)"
  | (too_large) template where "rf (c_template_path cfg) = Some template" "2 ^ 28 \<le> length template"
      "zereh_generate_xdp_source mem rf wr cfg = Fault"
proof (cases "rf (c_template_path cfg)")
  case None
  then show thesis using failed by (simp add: zereh_generate_xdp_source_def)
next
  case (Some template)
  let ?chain = "replace_chain mem (cstr template) (substitutions cfg (cases_of cfg) (rules_of cfg))"
  have g: "zereh_generate_xdp_source mem rf wr cfg = Err \<or>
      zereh_generate_xdp_source mem rf wr cfg = cres_bind ?chain (\<lambda>out.
        if wr (c_generated_source cfg) out then Ret (c_generated_source cfg, out) else Err)"
    using generate_route_cases_yields [OF assms, of mem] generate_fallback_yields [OF assms, of mem] Some
    by (auto simp: yields_def zereh_generate_xdp_source_def)
  show thesis
  proof (cases ?chain)
    case Fault
    then have "\<not> length template < 2 ^ 28"
      using chain_of_config_yields [OF assms, of template mem] by (auto simp: yields_def)
    then show thesis using g Fault Some failed too_large by auto
  next
    case (Ret out)
    then show thesis
      using g Some failed written chain_of_config_Ret [OF assms Ret] by (auto split: if_splits)
  qed (use g failed in auto)
qed

text \<open>
  Either nothing was done, or the source was written and the compiler run on it; only a template
  of 256 MiB or more can make the generator fault.
\<close>

lemma generate_and_compile_cases:
  assumes "config_wf cfg"
  obtains (failed) "generate_and_compile p cfg = Ret (False, [])"
  | (ran) template where "read_of p (c_template_path cfg) = Some template"
      "generate_and_compile p cfg = Ret (compiles p cfg,
         [Wrote (c_generated_source cfg) (source_of cfg template), Ran (flags_of (p_arch p) cfg)])"
  | (too_large) template where "read_of p (c_template_path cfg) = Some template" "2 ^ 28 \<le> length template"
      "generate_and_compile p cfg = Fault"
proof (cases rule: generate_source_cases [OF assms, of "p_mem p" "read_of p" "written p"])
  case 1
  then show thesis using failed by (simp add: generate_and_compile_def)
next
  case (2 template)
  then show thesis using ran by (simp add: generate_and_compile_def compile_eq)
next
  case (3 template)
  then show thesis using too_large by (simp add: generate_and_compile_def)
qed

lemma generate_and_compile_Ret:
  assumes "config_wf cfg" and "generate_and_compile p cfg = Ret (ok, evs)"
  shows "\<not> ok \<and> evs = [] \<or> (\<exists>template. read_of p (c_template_path cfg) = Some template \<and> ok = compiles p cfg \<and>
     evs = [Wrote (c_generated_source cfg) (source_of cfg template), Ran (flags_of (p_arch p) cfg)])"
  using assms(2) by (cases rule: generate_and_compile_cases [OF assms(1), of p]) auto

lemma command_ran:
  "Ret oc = generate_command p cfg \<Longrightarrow> \<exists>ok evs. generate_and_compile p cfg = Ret (ok, evs)"
  "Ret oc = generate_load_command p cfg ifname \<Longrightarrow> \<exists>ok evs. generate_and_compile p cfg = Ret (ok, evs)"
  by (cases "generate_and_compile p cfg"; simp add: generate_command_def generate_load_command_def)+

lemma parsed_wf: "zereh_parse_config_yaml y = (cfg, True) \<Longrightarrow> config_wf cfg"
  using parse_config_ok by metis

text \<open>The commands, by what they start with.\<close>

lemma main_parts:
  assumes "zereh_main p argv = res"
  obtains (pure) oc where "res = Ret oc" "o_events oc = []" "o_status oc \<in> {0, 1}"
  | (unload) config_path ifname where "argv ! 1 = ''unload''" "res = unload_command p config_path ifname"
  | (configured) config_path ifname cfg where
      "options_loop (drop 2 argv) ''config.yaml'' None = Some (config_path, ifname)"
      "zereh_parse_config_yaml (p_yaml p config_path) = (cfg, True)"
      "argv ! 1 = ''generate'' \<and> res = generate_command p cfg \<or>
       argv ! 1 = ''load'' \<and> res = load_command p cfg ifname \<or>
       argv ! 1 = ''generate-load'' \<and> res = generate_load_command p cfg ifname"
proof -
  have ex: "\<exists>oc. exit_with st [] = Ret oc \<and> o_events oc = [] \<and> o_status oc \<in> {0, 1}" if "st \<in> {0, 1}" for st
    using that by (auto simp: exit_with_def)
  have "\<exists>out. zereh_normalize_domain (argv ! 2) 256 = Ret out" using normalize_domain_Ret [of 256] by auto
  then have h: "\<exists>oc. hash_command argv = Ret oc \<and> o_events oc = [] \<and> o_status oc \<in> {0, 1}"
    by (auto simp: hash_command_def exit_with_def Let_def)
  have v: "\<exists>oc. version_command p = Ret oc \<and> o_events oc = [] \<and> o_status oc \<in> {0, 1}"
    by (auto simp: version_command_def split: prod.split)
  show thesis
  proof (cases "length argv < 2 \<or> argv ! 1 = ''hash'' \<or> argv ! 1 = ''version'' \<or> \<not> p_alloc p \<or>
      options_loop (drop 2 argv) ''config.yaml'' None = None")
    case True
    then have "\<exists>oc. zereh_main p argv = Ret oc \<and> o_events oc = [] \<and> o_status oc \<in> {0, 1}"
      using h v ex [of 1] by (auto simp: zereh_main_def Let_def)
    then show thesis using pure assms by metis
  next
    case False
    then obtain config_path ifname where o: "options_loop (drop 2 argv) ''config.yaml'' None = Some (config_path, ifname)" by auto
    obtain cfg ok where c: "zereh_parse_config_yaml (p_yaml p config_path) = (cfg, ok)" by fastforce
    have res: "res = (if argv ! 1 = ''unload'' then unload_command p config_path ifname
        else if \<not> ok then exit_with 1 []
        else if argv ! 1 = ''generate'' then generate_command p cfg
        else if argv ! 1 = ''load'' then load_command p cfg ifname
        else if argv ! 1 = ''generate-load'' then generate_load_command p cfg ifname
        else exit_with 1 [])"
      using False o c assms by (simp add: zereh_main_def Let_def cong: if_cong)
    consider "argv ! 1 = ''unload''" | "argv ! 1 \<noteq> ''unload''" "ok" "argv ! 1 \<in> {''generate'', ''load'', ''generate-load''}"
      | "res = exit_with 1 []" using res by (auto split: if_splits)
    then show thesis
    proof cases
      case 1
      then show thesis using unload res by simp
    next
      case 2
      then show thesis using configured [OF o, of cfg] c res by auto
    next
      case 3
      then show thesis using pure ex [of 1] by auto
    qed
  qed
qed

section \<open>A sample platform\<close>

text \<open>Everything succeeds; the template is a single letter.\<close>

definition sample_platform :: platform where
  "sample_platform = \<lparr>p_yaml = (\<lambda>path. Some (sample_doc, sample_doc 1)), p_mem = (\<lambda>n. True),
     p_stdio = \<lparr>f_open_rb = (\<lambda>path. True), f_seek_end = (\<lambda>path. 0), f_tell = (\<lambda>path. 1), f_seek_set = (\<lambda>path. 0),
       f_read = (\<lambda>path n. ''a''), f_open_wb = (\<lambda>path. True), f_write = (\<lambda>path t. length t)\<rparr>, p_arch = X86_64,
     p_spawn = (\<lambda>argv. Waited 0), p_libbpf = fresh_kernel, p_alloc = True,
     p_build = (''0.1.0-dev'', ''nogit'', ''unknown'')\<rparr>"

lemma sample_load_run:
  assumes "interface_of (zereh_config_init_defaults\<lparr>c_routes := [r]\<rparr>) ovr = n" and "0 < length n" and "length n < 16"
  shows "\<exists>calls. run_state (zereh_load_and_swap_xdp fresh_kernel (zereh_config_init_defaults\<lparr>c_routes := [r]\<rparr>) ovr) [] =
     (True, If_nametoindex n # calls)"
proof -
  have pin: "zereh_build_pin_path 4096 n = Ret (''/sys/fs/bpf/zereh/xdp_link_'' @ n)"
    using assms(2,3) by (simp add: build_pin_path_iff)
  show ?thesis
    unfolding zereh_load_and_swap_xdp_def assms(1)
    by (simp add: io_simps zereh_raise_memlock_def swap_object_def
      zereh_seed_maps_def seed_map_def zereh_ensure_dir_def zereh_attach_with_fallback_def
      zereh_attach_or_update_link_def zereh_config_init_defaults_def snprintf_s_def fresh_kernel_def pin)
qed

lemma sample_generate:
  assumes "config_wf cfg"
  shows "generate_and_compile sample_platform cfg =
    Ret (True, [Wrote (c_generated_source cfg) (source_of cfg ''a''), Ran (flags_of X86_64 cfg)])"
proof -
  have io: "p_mem sample_platform = (\<lambda>n. True)" "read_of sample_platform path = Some ''a''" "written sample_platform path t" for path t
    by (simp_all add: sample_platform_def read_of_def written_def zereh_read_file_def zereh_write_file_def)
  then have "zereh_generate_xdp_source (p_mem sample_platform) (read_of sample_platform) (written sample_platform) cfg =
      Ret (c_generated_source cfg, source_of cfg ''a'')"
    using generate_route_cases_yields [OF assms, of "\<lambda>n. True"] generate_fallback_yields [OF assms, of "\<lambda>n. True"]
      chain_of_config_yields [OF assms, of "''a''" "\<lambda>n. True"]
    by (simp add: yields_def zereh_generate_xdp_source_def)
  moreover have "compiles sample_platform cfg"
    by (simp add: compiles_def sample_platform_def WIFEXITED_def WEXITSTATUS_def)
  ultimately show ?thesis
    using compile_eq [of sample_platform cfg] by (simp add: generate_and_compile_def) (simp add: sample_platform_def)
qed

lemma sample_main_run:
  assumes "argv ! 1 = ''generate-load''" and "2 \<le> length argv"
    and "options_loop (drop 2 argv) ''config.yaml'' None = Some (path, ovr)"
    and "n = (case ovr of None \<Rightarrow> ''eth0'' | Some i \<Rightarrow> i)" and "0 < length n" and "length n < 16"
  shows "\<exists>oc. zereh_main sample_platform argv = Ret oc \<and> o_status oc = 0 \<and> Kernel (If_nametoindex n) \<in> set (o_events oc)"
proof -
  obtain r where r: "zereh_parse_config_yaml (Some (sample_doc, sample_doc 1)) = (zereh_config_init_defaults\<lparr>c_routes := [r]\<rparr>, True)"
    using sample_config by blast
  let ?cfg = "zereh_config_init_defaults\<lparr>c_routes := [r]\<rparr>"
  have "interface_of ?cfg ovr = n"
    using assms(4,5) by (auto simp: interface_of_def zereh_config_init_defaults_def snprintf_s_def split: option.splits)
  then obtain calls where "run_state (zereh_load_and_swap_xdp fresh_kernel ?cfg ovr) [] = (True, If_nametoindex n # calls)"
    using sample_load_run assms(5,6) by blast
  then have "kernel_events (zereh_load_and_swap_xdp fresh_kernel ?cfg ovr) = (True, Kernel (If_nametoindex n) # map Kernel calls)"
    by (simp add: kernel_events_def)
  moreover have "p_yaml sample_platform path = Some (sample_doc, sample_doc 1)" "p_alloc sample_platform"
    "p_libbpf sample_platform = fresh_kernel" for path
    by (simp_all add: sample_platform_def)
  ultimately show ?thesis
    using sample_generate [OF parsed_wf [OF r]] r assms(1-3)
    by (simp add: zereh_main_def generate_load_command_def exit_with_def Let_def)
qed

section \<open>Properties\<close>

text \<open>
  (C35) Every invocation of the tool ends, with exit status 0 or 1, whatever the arguments, the
  document, the files (below 256 MiB) and the kernel. It never stores outside a buffer of the
  control plane that the code bounds itself: the compiler's argument array and the builders'
  buffers, whose faults are those of \<open>zereh_main\<close>, as for \<open>hash\<close> is that of the buffer for the
  normalised domain; and, called with the sizes their callers pass, the functions that fill
  the normalised domain, the pin path, the words of the Bloom filter and the sanitised log
  message never do.
\<close>

theorem main_total:
  assumes "\<forall>path content. read_of p path = Some content \<longrightarrow> length content < 2 ^ 28"
  shows "(\<exists>oc. zereh_main p argv = Ret oc \<and> o_status oc \<in> {0, 1}) \<and>
    (\<forall>domain. zereh_normalize_domain domain 256 \<noteq> Fault) \<and>
    (\<forall>ifname. zereh_build_pin_path 4096 ifname \<noteq> Fault) \<and>
    (\<forall>words h bits fns bucket. length words = 1024 \<longrightarrow> zereh_bloom_set_bits_for_seed words h bits fns bucket \<noteq> Fault) \<and>
    (\<forall>msg. zereh_log_sanitize_message msg 512 \<noteq> Fault)"
proof (intro conjI allI impI)
  show "\<exists>oc. zereh_main p argv = Ret oc \<and> o_status oc \<in> {0, 1}"
    using refl [of "zereh_main p argv"]
  proof (cases rule: main_parts)
    case (unload config_path ifname)
    then show ?thesis by (auto simp: unload_command_def exit_with_def split: prod.split)
  next
    case (configured config_path ifname cfg)
    have "\<exists>ok evs. generate_and_compile p cfg = Ret (ok, evs)"
      by (cases rule: generate_and_compile_cases [OF parsed_wf [OF configured(2)], of p]) (use assms not_less in auto)
    then show ?thesis
      using configured(3)
      by (auto simp: generate_command_def load_command_def generate_load_command_def exit_with_def split: prod.split)
  qed auto
next
  show "zereh_normalize_domain domain 256 \<noteq> Fault" for domain using normalize_domain_Ret [of 256 domain] by auto
  show "zereh_build_pin_path 4096 ifname \<noteq> Fault" for ifname by (simp add: build_pin_path_eq)
  show "zereh_bloom_set_bits_for_seed words h bits fns bucket \<noteq> Fault" if "length words = 1024" for words h bits fns bucket
    using set_bits_for_seed_Ret [OF that, of h bits fns bucket] by auto
  show "zereh_log_sanitize_message msg 512 \<noteq> Fault" for msg using log_sanitize_Ret [of 512 msg] by auto
qed

theorem main_total_witness:
  "(\<exists>oc. zereh_main sample_platform [''zereh'', ''hash'', replicate 300 (CHR ''a'')] = Ret oc \<and> o_status oc \<in> {0, 1}) \<and>
   zereh_bloom_set_bits_for_seed (replicate 1024 0) 1 64 3 0 \<noteq> Fault"
proof -
  have "\<forall>path content. read_of sample_platform path = Some content \<longrightarrow> length content < 2 ^ 28"
    by (simp add: sample_platform_def read_of_def zereh_read_file_def)
  from main_total [OF this, of "[''zereh'', ''hash'', replicate 300 (CHR ''a'')]"] show ?thesis
    by (elim conjE, intro conjI) simp_all
qed

text \<open>
  (C33) The kernel is touched only by a command that may: an event of the kernel occurs only in
  \<open>unload\<close>, in \<open>load\<close> with a document that parsed completely, or in \<open>generate-load\<close>
  after the source of that configuration has been written and \<open>clang\<close> has exited with
  status 0 on it. So a configuration error, an unwritable source or a compile error leaves
  the running program in place.
\<close>

theorem kernel_only_when_ready:
  assumes "zereh_main p argv = Ret oc" and "Kernel c \<in> set (o_events oc)" and "argv ! 1 \<noteq> ''unload''"
  shows "\<exists>config_path ifname cfg. options_loop (drop 2 argv) ''config.yaml'' None = Some (config_path, ifname) \<and>
    zereh_parse_config_yaml (p_yaml p config_path) = (cfg, True) \<and> config_wf cfg \<and>
    (argv ! 1 = ''load'' \<and> o_events oc = snd (kernel_events (zereh_load_and_swap_xdp (p_libbpf p) cfg ifname)) \<or>
     argv ! 1 = ''generate-load'' \<and> compiles p cfg \<and>
       (\<exists>template. read_of p (c_template_path cfg) = Some template \<and>
          o_events oc = [Wrote (c_generated_source cfg) (source_of cfg template), Ran (flags_of (p_arch p) cfg)] @
            snd (kernel_events (zereh_load_and_swap_xdp (p_libbpf p) cfg ifname))))"
  using assms(1)
proof (cases rule: main_parts)
  case (configured config_path ifname cfg)
  note wf = parsed_wf [OF configured(2)]
  have g: "Kernel c \<notin> set evs" if "generate_and_compile p cfg = Ret (ok, evs)" for ok evs
    using generate_and_compile_Ret [OF wf that] by auto
  consider "argv ! 1 = ''load''" "Ret oc = load_command p cfg ifname"
    | ok evs where "argv ! 1 = ''generate-load''" "Ret oc = generate_load_command p cfg ifname"
      "generate_and_compile p cfg = Ret (ok, evs)"
    | ok evs where "Ret oc = generate_command p cfg" "generate_and_compile p cfg = Ret (ok, evs)"
    using configured(3) command_ran by metis
  then show ?thesis
  proof cases
    case 1
    then show ?thesis
      using configured(1,2) wf
      by (intro exI [of _ config_path] exI [of _ ifname] exI [of _ cfg])
        (auto simp: load_command_def exit_with_def split: prod.splits)
  next
    case (2 ok evs)
    then have "ok" using g [OF 2(3)] assms(2) by (auto simp: generate_load_command_def exit_with_def split: if_splits)
    then obtain template where "read_of p (c_template_path cfg) = Some template" "compiles p cfg"
      "evs = [Wrote (c_generated_source cfg) (source_of cfg template), Ran (flags_of (p_arch p) cfg)]"
      using generate_and_compile_Ret [OF wf 2(3)] by auto
    then show ?thesis
      using 2 \<open>ok\<close> configured(1,2) wf
      by (intro exI [of _ config_path] exI [of _ ifname] exI [of _ cfg])
        (auto simp: generate_load_command_def exit_with_def split: prod.splits)
  next
    case (3 ok evs)
    then show ?thesis
      using g [OF 3(2)] assms(2) by (auto simp: generate_command_def exit_with_def split: if_splits)
  qed
qed (use assms in auto)

theorem kernel_only_when_ready_witness:
  "\<exists>oc cfg. zereh_main sample_platform [''zereh'', ''generate-load'', ''-c'', ''c.yaml''] = Ret oc \<and>
     Kernel (If_nametoindex ''eth0'') \<in> set (o_events oc) \<and> config_wf cfg \<and> compiles sample_platform cfg"
proof -
  obtain oc where oc: "zereh_main sample_platform [''zereh'', ''generate-load'', ''-c'', ''c.yaml''] = Ret oc"
      "Kernel (If_nametoindex ''eth0'') \<in> set (o_events oc)"
    using sample_main_run [of "[''zereh'', ''generate-load'', ''-c'', ''c.yaml'']" "''c.yaml''" None] by auto
  from kernel_only_when_ready [OF oc] oc show ?thesis by auto
qed



text \<open>
  (C36) The \<open>hash\<close> command prints the label the generated \<open>switch\<close> has for the domain: the
  hexadecimal number is the hash an accepted configuration stores in every route with that
  domain, when the algorithm is the configured one.
\<close>

theorem hash_command_label:
  assumes "zereh_parse_config_yaml y = (cfg, True)" and "r \<in> set (c_routes cfg)"
    and "name = (case c_hash_algo cfg of ZEREH_HASH_FNV1A \<Rightarrow> ''fnv1a'' | ZEREH_HASH_SIPHASH \<Rightarrow> ''siphash'')"
  shows "\<exists>ds. zereh_main p [prog, ''hash'', r_domain r, name] = Ret \<lparr>o_status = 0, o_stdout = ''0x'' @ ds @ NL, o_events = []\<rparr> \<and>
    length ds = 16 \<and> hex_val ds = unat (r_hash r)"
proof -
  have "\<not> strcasecmp ''fnv1a'' ''siphash''" by (simp add: strcasecmp_def)
  moreover obtain out where "zereh_normalize_domain (r_domain r) 256 = Ret out"
    using normalize_domain_Ret [of 256 "r_domain r"] by auto
  ultimately show ?thesis
    using assms(3) parsed_routes_hash [OF assms(1,2)]
    by (auto simp: zereh_main_def hash_command_def print_line_def hex_val_pad length_hash_text Let_def
        split: zereh_hash_algorithm.splits)
qed

theorem hash_command_label_witness:
  "\<exists>(r :: zereh_route) ds. zereh_main sample_platform [''zereh'', ''hash'', ''Ab.c'', ''fnv1a''] =
       Ret \<lparr>o_status = 0, o_stdout = ''0x'' @ ds @ NL, o_events = []\<rparr> \<and> r_domain r = ''Ab.c'' \<and> hex_val ds = unat (r_hash r)"
proof -
  obtain r where r: "zereh_parse_config_yaml (Some (sample_doc, sample_doc 1)) = (zereh_config_init_defaults\<lparr>c_routes := [r]\<rparr>, True)"
    "r_domain r = ''Ab.c''"
    using sample_config by blast
  have "r \<in> set (c_routes (zereh_config_init_defaults\<lparr>c_routes := [r]\<rparr>))" by simp
  from hash_command_label [OF r(1) this, of "''fnv1a''" sample_platform "''zereh''"] obtain ds where
    "zereh_main sample_platform [''zereh'', ''hash'', r_domain r, ''fnv1a''] =
       Ret \<lparr>o_status = 0, o_stdout = ''0x'' @ ds @ NL, o_events = []\<rparr>" "hex_val ds = unat (r_hash r)"
    by (auto simp: zereh_config_init_defaults_def)
  then show ?thesis using r(2) by (intro exI [of _ r] exI [of _ ds]) simp
qed

end
