(* ===== verification/Zereh_Rx.thy ===== *)
theory Zereh_Rx
  imports Zereh_Libc
begin

text \<open>
  The AF_XDP receiver (\<open>apps/zereh_rx.c\<close>): setting up the rings, the receive loop and the
  cleanup.

  The rings belong to libxdp and the kernel. A run is the list of its interactions with
  them, results included; no result is assumed. The straight-line setup takes the results of
  its calls as the record \<open>init_results\<close>; the loop is a step relation in which every result
  is free and the signal handler may run between any two steps. \<open>FRAME_SIZE\<close>, a constant of
  libxdp, is a parameter. As documented, a failing \<open>posix_memalign\<close>,
  \<open>xsk_umem__create\<close> or \<open>xsk_socket__create\<close> leaves its output pointer, here null,
  unchanged. Output on the terminal is left out.
\<close>

section \<open>Definitions\<close>

abbreviation (input) "NUM_FRAMES \<equiv> (4096 :: nat)"
abbreviation (input) "RX_BATCH_SIZE \<equiv> (64 :: u32)"
abbreviation (input) "EINTR \<equiv> (4 :: int)"

datatype rx_event =
    Memalign nat int
  | Umem_create int
  | Socket_create string u32 int
  | Fq_reserve u32 u32 u32
  | Fq_fill u32 u64
  | Fq_submit u32
  | Poll_call int
  | Rx_peek u32 u32 u32
  | Rx_desc u32 u64
  | Wakeup_send
  | Rx_release u32
  | Socket_delete
  | Umem_delete
  | Free_buffer

text \<open>Which pointers of the context are not null.\<close>

record zereh_xsk_ctx =
  x_umem :: bool
  x_xsk :: bool
  x_buffer :: bool

record init_results =
  ir_memalign :: int
  ir_umem :: int
  ir_socket :: int
  ir_reserved :: u32
  ir_idx :: u32

subsection \<open>Setup and cleanup\<close>

text \<open>\<open>for (i = 0; i < NUM_FRAMES; i++)\<close>, with \<open>n\<close> iterations left\<close>

fun fill_loop :: "u32 \<Rightarrow> u32 \<Rightarrow> u32 \<Rightarrow> nat \<Rightarrow> rx_event list" where
  "fill_loop frame_size idx i 0 = []"
| "fill_loop frame_size idx i (Suc n) =
     Fq_fill (idx + i) (ucast (i * frame_size)) # fill_loop frame_size idx (i + 1) n"

definition zereh_init_xsk :: "u32 \<Rightarrow> init_results \<Rightarrow> string \<Rightarrow> u32 \<Rightarrow> bool \<times> zereh_xsk_ctx \<times> rx_event list" where
  "zereh_init_xsk frame_size res ifname queue_id = (
     let ctx = \<lparr>x_umem = False, x_xsk = False, x_buffer = False\<rparr>;
         evs = [Memalign (NUM_FRAMES * unat frame_size) (ir_memalign res)] in
     if ir_memalign res \<noteq> 0 then (False, ctx, evs) else
     let ctx = ctx\<lparr>x_buffer := True\<rparr>; evs = evs @ [Umem_create (ir_umem res)] in
     if ir_umem res \<noteq> 0 then (False, ctx, evs) else
     let ctx = ctx\<lparr>x_umem := True\<rparr>; evs = evs @ [Socket_create ifname queue_id (ir_socket res)] in
     if ir_socket res \<noteq> 0 then (False, ctx, evs) else
     let ctx = ctx\<lparr>x_xsk := True\<rparr>; evs = evs @ [Fq_reserve (of_nat NUM_FRAMES) (ir_reserved res) (ir_idx res)] in
     if ir_reserved res \<noteq> of_nat NUM_FRAMES then (False, ctx, evs) else
     (True, ctx, evs @ fill_loop frame_size (ir_idx res) 0 NUM_FRAMES @ [Fq_submit (of_nat NUM_FRAMES)]))"

definition zereh_cleanup_xsk :: "zereh_xsk_ctx \<Rightarrow> rx_event list" where
  "zereh_cleanup_xsk ctx =
     (if x_xsk ctx then [Socket_delete] else []) @ (if x_umem ctx then [Umem_delete] else []) @ [Free_buffer]"

subsection \<open>The receive loop\<close>

text \<open>
  Where the loop is: at its head, before \<open>xsk_ring_cons__peek\<close>, at the head of the inner
  \<open>for\<close> (\<open>i\<close>, \<open>rcvd\<close>, \<open>idx_rx\<close>), in the reservation loop with the address in hand, done.
\<close>

datatype rx_pc =
    Loop_head
  | Peeking
  | For_head u32 u32 u32
  | Reserving u32 u32 u32 u64
  | Exited int

record rx_state =
  g_stop :: bool
  rx_pc :: rx_pc
  packet_count :: u64
  rx_ctx :: zereh_xsk_ctx
  rx_trace :: "rx_event list"

abbreviation (input) goto :: "rx_state \<Rightarrow> rx_pc \<Rightarrow> rx_event list \<Rightarrow> rx_state" where
  "goto s pc evs \<equiv> s\<lparr>rx_pc := pc, rx_trace := rx_trace s @ evs\<rparr>"

inductive rx_step :: "rx_state \<Rightarrow> rx_state \<Rightarrow> bool" where
  zereh_on_signal: "rx_step s (s\<lparr>g_stop := True\<rparr>)"
| stopped: "rx_pc s = Loop_head \<Longrightarrow> g_stop s \<Longrightarrow> rx_step s (goto s (Exited 0) (zereh_cleanup_xsk (rx_ctx s)))"
| poll_interrupted: "rx_pc s = Loop_head \<Longrightarrow> \<not> g_stop s \<Longrightarrow> r < 0 \<Longrightarrow> errno = EINTR \<Longrightarrow>
    rx_step s (goto s Loop_head [Poll_call r])"
| poll_failed: "rx_pc s = Loop_head \<Longrightarrow> \<not> g_stop s \<Longrightarrow> r < 0 \<Longrightarrow> errno \<noteq> EINTR \<Longrightarrow>
    rx_step s (goto s (Exited 0) (Poll_call r # zereh_cleanup_xsk (rx_ctx s)))"
| poll_returned: "rx_pc s = Loop_head \<Longrightarrow> \<not> g_stop s \<Longrightarrow> 0 \<le> r \<Longrightarrow> rx_step s (goto s Peeking [Poll_call r])"
| peek_none: "rx_pc s = Peeking \<Longrightarrow> rx_step s (goto s Loop_head [Rx_peek RX_BATCH_SIZE 0 idx])"
| peek_some: "rx_pc s = Peeking \<Longrightarrow> rcvd \<noteq> 0 \<Longrightarrow> rx_step s (goto s (For_head 0 rcvd idx) [Rx_peek RX_BATCH_SIZE rcvd idx])"
| take_desc: "rx_pc s = For_head i rcvd idx \<Longrightarrow> i < rcvd \<Longrightarrow>
    rx_step s (goto s (Reserving i rcvd idx addr) [Rx_desc (idx + i) addr]\<lparr>packet_count := packet_count s + 1\<rparr>)"
| reserve_failed: "rx_pc s = Reserving i rcvd idx addr \<Longrightarrow> n \<noteq> 1 \<Longrightarrow>
    rx_step s (goto s (Reserving i rcvd idx addr) (Fq_reserve 1 n idx_fq # (if needs_wakeup then [Wakeup_send] else [])))"
| give_back: "rx_pc s = Reserving i rcvd idx addr \<Longrightarrow>
    rx_step s (goto s (For_head (i + 1) rcvd idx) [Fq_reserve 1 1 idx_fq, Fq_fill idx_fq addr, Fq_submit 1])"
| batch_done: "rx_pc s = For_head i rcvd idx \<Longrightarrow> \<not> i < rcvd \<Longrightarrow> rx_step s (goto s Loop_head [Rx_release rcvd])"

text \<open>
  \<open>main\<close>: the usage message, a failed setup, or the loop from its initial state. The
  arguments are those after the program name.
\<close>

definition rx_start :: "zereh_xsk_ctx \<Rightarrow> rx_event list \<Rightarrow> rx_state" where
  "rx_start ctx evs = \<lparr>g_stop = False, rx_pc = Loop_head, packet_count = 0, rx_ctx = ctx, rx_trace = evs\<rparr>"

definition rx_main :: "u32 \<Rightarrow> init_results \<Rightarrow> string list \<Rightarrow> rx_state" where
  "rx_main frame_size res args = (case args of
     ifname # queue # _ \<Rightarrow>
       (case zereh_init_xsk frame_size res ifname (ucast (fst (strtoul10 queue))) of
          (True, ctx, evs) \<Rightarrow> rx_start ctx evs
        | (False, ctx, evs) \<Rightarrow> (rx_start ctx (evs @ zereh_cleanup_xsk ctx))\<lparr>rx_pc := Exited 1\<rparr>)
   | _ \<Rightarrow> (rx_start \<lparr>x_umem = False, x_xsk = False, x_buffer = False\<rparr> [])\<lparr>rx_pc := Exited 1\<rparr>)"

text \<open>The states of all runs.\<close>

inductive rx_reachable :: "u32 \<Rightarrow> init_results \<Rightarrow> string list \<Rightarrow> rx_state \<Rightarrow> bool" for frame_size res args where
  start: "rx_reachable frame_size res args (rx_main frame_size res args)"
| step: "rx_reachable frame_size res args s \<Longrightarrow> rx_step s t \<Longrightarrow> rx_reachable frame_size res args t"

section \<open>Traces\<close>

text \<open>Addresses taken from the receive ring, addresses put on the fill ring, and counts.\<close>

fun taken :: "rx_event list \<Rightarrow> u64 list" where
  "taken [] = []"
| "taken (Rx_desc k a # es) = a # taken es"
| "taken (_ # es) = taken es"

fun filled :: "rx_event list \<Rightarrow> u64 list" where
  "filled [] = []"
| "filled (Fq_fill k a # es) = a # filled es"
| "filled (_ # es) = filled es"

fun submitted :: "rx_event list \<Rightarrow> nat" where
  "submitted [] = 0"
| "submitted (Fq_submit n # es) = unat n + submitted es"
| "submitted (_ # es) = submitted es"

fun peeked :: "rx_event list \<Rightarrow> nat" where
  "peeked [] = 0"
| "peeked (Rx_peek m n k # es) = unat n + peeked es"
| "peeked (_ # es) = peeked es"

fun released_n :: "rx_event list \<Rightarrow> nat" where
  "released_n [] = 0"
| "released_n (Rx_release n # es) = unat n + released_n es"
| "released_n (_ # es) = released_n es"

lemma trace_append [simp]:
  "taken (a @ b) = taken a @ taken b" "filled (a @ b) = filled a @ filled b"
  "submitted (a @ b) = submitted a + submitted b" "peeked (a @ b) = peeked a + peeked b"
  "released_n (a @ b) = released_n a + released_n b"
proof -
  show "taken (a @ b) = taken a @ taken b" by (induction a rule: taken.induct) auto
  show "filled (a @ b) = filled a @ filled b" by (induction a rule: filled.induct) auto
  show "submitted (a @ b) = submitted a + submitted b" by (induction a rule: submitted.induct) auto
  show "peeked (a @ b) = peeked a + peeked b" by (induction a rule: peeked.induct) auto
  show "released_n (a @ b) = released_n a + released_n b" by (induction a rule: released_n.induct) auto
qed

text \<open>Setup puts the frames \<open>0, frame_size, ...\<close> on the fill ring, in order.\<close>

lemma fill_loop_traces:
  "taken (fill_loop fs idx i n) = []" "submitted (fill_loop fs idx i n) = 0"
  "peeked (fill_loop fs idx i n) = 0" "released_n (fill_loop fs idx i n) = 0"
  by (induction n arbitrary: i; simp)+

lemma filled_fill_loop:
  "filled (fill_loop fs idx i n) = map (\<lambda>k. ucast ((i + of_nat k) * fs)) [0..<n]"
proof (induction n arbitrary: i)
  case (Suc n)
  have "map (\<lambda>k. ucast ((i + of_nat k) * fs) :: u64) [0..<Suc n] =
      ucast (i * fs) # map (\<lambda>k. ucast ((i + 1 + of_nat k) * fs)) [0..<n]"
    by (simp only: map_upt_Suc) (simp add: add.assoc)
  then show ?case using Suc by simp
qed simp

lemma init_cases:
  assumes "zereh_init_xsk fs res ifname q = (ok, ctx, evs)"
  obtains (failed) "\<not> ok" "taken evs = []" "filled evs = []" "submitted evs = 0" "peeked evs = 0" "released_n evs = 0"
  | (ready) "ok" "taken evs = []" "filled evs = map (\<lambda>k. ucast (of_nat k * fs)) [0..<4096]" "submitted evs = 4096"
     "peeked evs = 0" "released_n evs = 0" "ctx = \<lparr>x_umem = True, x_xsk = True, x_buffer = True\<rparr>"
  using assms filled_fill_loop [of fs "ir_idx res" 0 4096]
  by (auto simp: zereh_init_xsk_def Let_def fill_loop_traces simp del: fill_loop.simps split: if_splits)

lemma cleanup_traces [simp]:
  "taken (zereh_cleanup_xsk ctx) = []" "filled (zereh_cleanup_xsk ctx) = []" "submitted (zereh_cleanup_xsk ctx) = 0"
  "peeked (zereh_cleanup_xsk ctx) = 0" "released_n (zereh_cleanup_xsk ctx) = 0"
  by (simp_all add: zereh_cleanup_xsk_def)

section \<open>The loop invariant\<close>

text \<open>The address in hand, and how much of the current batch is still to be processed.\<close>

fun in_hand :: "rx_pc \<Rightarrow> u64 list" where
  "in_hand (Reserving i rcvd idx addr) = [addr]"
| "in_hand _ = []"

fun batch :: "rx_pc \<Rightarrow> nat \<times> nat" where
  "batch (For_head i rcvd idx) = (unat i, unat rcvd)"
| "batch (Reserving i rcvd idx addr) = (unat i, unat rcvd)"
| "batch _ = (0, 0)"

definition rx_inv :: "u64 list \<Rightarrow> rx_state \<Rightarrow> bool" where
  "rx_inv frames s \<longleftrightarrow>
     filled (rx_trace s) @ in_hand (rx_pc s) = frames @ taken (rx_trace s) \<and>
     submitted (rx_trace s) = length (filled (rx_trace s)) \<and>
     packet_count s = of_nat (length (taken (rx_trace s))) \<and>
     (case batch (rx_pc s) of (i, rcvd) \<Rightarrow> i \<le> rcvd \<and>
        peeked (rx_trace s) = released_n (rx_trace s) + rcvd \<and>
        length (taken (rx_trace s)) = released_n (rx_trace s) + i + length (in_hand (rx_pc s))) \<and>
     (case rx_pc s of Reserving i rcvd idx addr \<Rightarrow> i < rcvd | _ \<Rightarrow> True)"

lemma unat_inc: "i < rcvd \<Longrightarrow> unat (i + 1 :: u32) = unat i + 1"
  by unat_arith

lemma rx_step_inv: "rx_step s t \<Longrightarrow> rx_inv frames s \<Longrightarrow> rx_inv frames t"
proof (induction rule: rx_step.induct)
  case (give_back s i rcvd idx addr idx_fq)
  then have "length (filled (rx_trace s) @ [addr]) = length (frames @ taken (rx_trace s))" "i < rcvd"
    by (simp_all add: rx_inv_def)
  then show ?case using give_back by (auto simp: rx_inv_def unat_inc word_less_nat_alt)
qed (auto simp: rx_inv_def word_less_nat_alt split: rx_pc.splits)

text \<open>The context is fixed, and the trace of a finished run ends with the cleanup.\<close>

definition exit_inv :: "zereh_xsk_ctx \<Rightarrow> rx_state \<Rightarrow> bool" where
  "exit_inv ctx s \<longleftrightarrow> rx_ctx s = ctx \<and>
     (case rx_pc s of Exited c \<Rightarrow> \<exists>evs. rx_trace s = evs @ zereh_cleanup_xsk ctx | _ \<Rightarrow> True)"

lemma rx_step_exit_inv: "rx_step s t \<Longrightarrow> exit_inv ctx s \<Longrightarrow> exit_inv ctx t"
  by (induction rule: rx_step.induct) (auto simp: exit_inv_def split: rx_pc.splits)

lemma exited_stays: "rx_step s t \<Longrightarrow> rx_pc s = Exited c \<Longrightarrow> rx_pc t = Exited c \<and> rx_trace t = rx_trace s"
  by (induction rule: rx_step.induct) auto

interpretation rx_done: step_invariant rx_step "\<lambda>s. s = s\<^sub>0 \<and> rx_pc s = Exited c"
    "\<lambda>s. rx_pc s = Exited c \<and> rx_trace s = rx_trace s\<^sub>0" for s\<^sub>0 c
  by unfold_locales (auto dest: exited_stays)

lemma reachable_runs: "rx_reachable fs res args s \<Longrightarrow> rx_step\<^sup>*\<^sup>* (rx_main fs res args) s"
  by (induction rule: rx_reachable.induct) (auto intro: rtranclp.rtrancl_into_rtrancl)

text \<open>The frames of the buffer.\<close>

definition frames_of :: "u32 \<Rightarrow> u64 list" where
  "frames_of fs = map (\<lambda>k. ucast (of_nat k * fs)) [0..<4096]"

definition ready :: "init_results \<Rightarrow> bool" where
  "ready res \<longleftrightarrow> ir_memalign res = 0 \<and> ir_umem res = 0 \<and> ir_socket res = 0 \<and> ir_reserved res = 4096"

lemma main_ready:
  assumes "ready res"
  shows "rx_inv (frames_of fs) (rx_main fs res (ifname # queue # rest)) \<and>
    exit_inv \<lparr>x_umem = True, x_xsk = True, x_buffer = True\<rparr> (rx_main fs res (ifname # queue # rest))"
proof -
  obtain ok ctx evs where z: "zereh_init_xsk fs res ifname (ucast (fst (strtoul10 queue))) = (ok, ctx, evs)"
    by (metis prod_cases3)
  have "ok" using z assms by (auto simp: zereh_init_xsk_def ready_def Let_def split: if_splits)
  then show ?thesis
    using z
    by (cases rule: init_cases [OF z])
      (auto simp: rx_main_def rx_start_def rx_inv_def exit_inv_def frames_of_def)
qed

definition all_set :: zereh_xsk_ctx where
  "all_set = \<lparr>x_umem = True, x_xsk = True, x_buffer = True\<rparr>"

interpretation rx_live: step_invariant rx_step
    "\<lambda>s. ready res \<and> s = rx_main fs res (ifname # queue # rest)"
    "\<lambda>s. rx_inv (frames_of fs) s \<and> exit_inv all_set s" for fs res ifname queue rest
  by unfold_locales (use main_ready rx_step_inv rx_step_exit_inv in \<open>auto simp: all_set_def\<close>)

lemma reachable_inv:
  assumes "rx_reachable fs res (ifname # queue # rest) s" and "ready res"
  shows "rx_inv (frames_of fs) s \<and> exit_inv all_set s"
  using rx_live.reached_inv [OF _ reachable_runs [OF assms(1)]] assms(2) by blast

lemma frames_distinct:
  assumes "0 < fs" and "4096 * unat fs \<le> 2 ^ 32"
  shows "distinct (frames_of fs)" and "a \<in> set (frames_of fs) \<Longrightarrow> unat a + unat fs \<le> 4096 * unat fs"
proof -
  have u: "unat (ucast (of_nat k * fs :: u32) :: u64) = k * unat fs" if "k < 4096" for k
  proof -
    have "k * unat fs < 4096 * unat fs" using that assms(1) by (simp add: unat_gt_0)
    then have "k * unat fs < 2 ^ 32" using assms(2) by (rule less_le_trans)
    moreover have "of_nat k * fs = (of_nat (k * unat fs) :: u32)" by simp
    ultimately have "unat (of_nat k * fs :: u32) = k * unat fs" by (simp only: unat_of_nat) simp
    then show ?thesis using \<open>k * unat fs < 2 ^ 32\<close> by (simp add: unsigned_ucast_eq take_bit_nat_eq_self)
  qed
  have f: "0 < unat fs" using assms(1) by (simp add: unat_gt_0)
  have "inj_on (\<lambda>k. ucast (of_nat k * fs) :: u64) {0..<4096}"
    by (rule inj_onI) (metis (no_types, lifting) u f atLeastLessThan_iff mult_cancel2 less_numeral_extra(3))
  then show "distinct (frames_of fs)" by (simp add: frames_of_def distinct_map)
  show "unat a + unat fs \<le> 4096 * unat fs" if "a \<in> set (frames_of fs)"
  proof -
    from that obtain k where k: "k < 4096" "a = ucast (of_nat k * fs)" by (auto simp: frames_of_def)
    then have "unat a + unat fs = Suc k * unat fs" using u by simp
    also have "\<dots> \<le> 4096 * unat fs" using k(1) by (intro mult_le_mono1) simp
    finally show ?thesis .
  qed
qed

section \<open>Stopping\<close>

text \<open>How many steps other than failed reservations are left once the flag is set.\<close>

fun work :: "rx_pc \<Rightarrow> nat" where
  "work (Exited c) = 0"
| "work Loop_head = 1"
| "work (For_head i rcvd idx) = 2 * (unat rcvd - unat i) + 2"
| "work (Reserving i rcvd idx addr) = 2 * (unat rcvd - unat i) + 1"
| "work Peeking = 2 * 2 ^ 32 + 3"

fun polls :: "rx_event list \<Rightarrow> nat" where
  "polls [] = 0"
| "polls (Poll_call r # es) = Suc (polls es)"
| "polls (_ # es) = polls es"

lemma polls_append [simp]: "polls (a @ b) = polls a + polls b"
  by (induction a rule: polls.induct) auto

lemma polls_cleanup [simp]: "polls (zereh_cleanup_xsk ctx) = 0"
  by (simp add: zereh_cleanup_xsk_def)

lemma stopped_step:
  assumes "rx_step s t" and "g_stop s" and "rx_inv frames s"
  shows "g_stop t \<and> polls (rx_trace t) = polls (rx_trace s) \<and> (work (rx_pc t) < work (rx_pc s) \<or> rx_pc t = rx_pc s)"
  using assms
proof (induction rule: rx_step.induct)
  case (peek_some s rcvd idx)
  have "unat rcvd < 2 ^ LENGTH(32)" by (rule unsigned_less)
  then show ?case using peek_some by simp
next
  case (give_back s i rcvd idx addr idx_fq)
  then have "i < rcvd" by (simp add: rx_inv_def)
  then show ?case using give_back by (auto simp: unat_inc word_less_nat_alt)
qed auto

interpretation rx_stopping: step_invariant rx_step "\<lambda>s. s = s\<^sub>0 \<and> g_stop s \<and> rx_inv frames s"
    "\<lambda>s. g_stop s \<and> polls (rx_trace s) = polls (rx_trace s\<^sub>0) \<and> work (rx_pc s) \<le> work (rx_pc s\<^sub>0) \<and> rx_inv frames s"
    for s\<^sub>0 frames
proof unfold_locales
  fix s t
  assume "g_stop s \<and> polls (rx_trace s) = polls (rx_trace s\<^sub>0) \<and> work (rx_pc s) \<le> work (rx_pc s\<^sub>0) \<and> rx_inv frames s"
    and "rx_step s t"
  then show "g_stop t \<and> polls (rx_trace t) = polls (rx_trace s\<^sub>0) \<and> work (rx_pc t) \<le> work (rx_pc s\<^sub>0) \<and> rx_inv frames t"
    using stopped_step [of s t frames] rx_step_inv [of s t frames] by fastforce
qed simp

text \<open>A step that is not a failed reservation is always possible.\<close>

lemma stopped_progress:
  assumes "g_stop s" and "rx_inv frames s" and "\<And>c. rx_pc s \<noteq> Exited c"
  shows "\<exists>t. rx_step s t \<and> work (rx_pc t) < work (rx_pc s)"
proof (cases "rx_pc s")
  case Loop_head
  show ?thesis by (rule exI, rule conjI, rule stopped [OF Loop_head assms(1)]) (simp add: Loop_head)
next
  case Peeking
  show ?thesis by (rule exI, rule conjI, rule peek_none [OF Peeking]) (simp add: Peeking)
next
  case (For_head i rcvd idx)
  show ?thesis
  proof (cases "i < rcvd")
    case True
    show ?thesis by (rule exI, rule conjI, rule take_desc [OF For_head True]) (simp add: For_head)
  next
    case False
    show ?thesis by (rule exI, rule conjI, rule batch_done [OF For_head False]) (simp add: For_head)
  qed
next
  case (Reserving i rcvd idx addr)
  then have i: "i < rcvd" using assms(2) by (simp add: rx_inv_def)
  show ?thesis
    by (rule exI, rule conjI, rule give_back [OF Reserving]) (use i in \<open>auto simp: Reserving unat_inc word_less_nat_alt\<close>)
qed (use assms(3) in auto)

lemma stopped_can_exit:
  "g_stop s \<Longrightarrow> rx_inv frames s \<Longrightarrow> \<exists>t c. rx_step\<^sup>*\<^sup>* s t \<and> rx_pc t = Exited c"
proof (induction "work (rx_pc s)" arbitrary: s rule: less_induct)
  case less
  show ?case
  proof (cases "\<exists>c. rx_pc s = Exited c")
    case False
    then obtain t where t: "rx_step s t" "work (rx_pc t) < work (rx_pc s)"
      using stopped_progress [OF less.prems] by blast
    then obtain u c where "rx_step\<^sup>*\<^sup>* t u" "rx_pc u = Exited c"
      using less stopped_step [of s t frames] rx_step_inv [of s t frames] by metis
    then show ?thesis using t(1) converse_rtranclp_into_rtranclp by metis
  qed auto
qed

section \<open>Properties\<close>

text \<open>Everything succeeds, and frames have 4096 bytes.\<close>

definition sample_results :: init_results where
  "sample_results = \<lparr>ir_memalign = 0, ir_umem = 0, ir_socket = 0, ir_reserved = 4096, ir_idx = 0\<rparr>"

lemma sample_ready: "ready sample_results"
  by (simp add: ready_def sample_results_def)

text \<open>A run that receives one packet, is told to stop while it holds it, and ends.\<close>

lemma sample_rx_run:
  "\<exists>s. rx_reachable 4096 sample_results [''eth0'', ''0''] s \<and> g_stop s \<and> rx_pc s = Reserving 0 1 7 8192"
proof -
  let ?m = "rx_main 4096 sample_results [''eth0'', ''0'']"
  have m: "rx_pc ?m = Loop_head" "\<not> g_stop ?m"
    by (simp_all add: rx_main_def rx_start_def zereh_init_xsk_def sample_results_def Let_def)
  let ?s1 = "goto ?m Peeking [Poll_call 1]"
  let ?s2 = "goto ?s1 (For_head 0 1 7) [Rx_peek RX_BATCH_SIZE 1 7]"
  let ?s3 = "goto ?s2 (Reserving 0 1 7 8192) [Rx_desc (7 + 0) 8192]\<lparr>packet_count := packet_count ?s2 + 1\<rparr>"
  have "rx_reachable 4096 sample_results [''eth0'', ''0''] ?s1"
    by (rule rx_reachable.step [OF rx_reachable.start]) (rule poll_returned [OF m], simp)
  then have "rx_reachable 4096 sample_results [''eth0'', ''0''] ?s2"
    by (rule rx_reachable.step) (rule peek_some, simp_all)
  then have "rx_reachable 4096 sample_results [''eth0'', ''0''] ?s3"
    by (rule rx_reachable.step) (rule take_desc, simp_all)
  then have "rx_reachable 4096 sample_results [''eth0'', ''0''] (?s3\<lparr>g_stop := True\<rparr>)"
    by (rule rx_reachable.step) (rule zereh_on_signal)
  then show ?thesis by (intro exI [of _ "?s3\<lparr>g_stop := True\<rparr>"]) simp
qed

text \<open>
  (C37) No frame is lost or duplicated by the receiver: in every reachable state, the frames
  put on the fill ring are those of the buffer, once each, followed by exactly the frames
  taken from the receive ring, in order, except for the one in hand; every frame put is
  submitted, the packet counter counts the frames taken, and a descriptor is released only
  after its frame went back. When the receiver has ended, nothing is in hand, what was
  received was released, and socket, memory area and buffer have been
  freed; no operation follows.
\<close>

theorem rx_frames_conserved:
  assumes "rx_reachable fs res (ifname # queue # rest) s" and "ready res" and "0 < fs" and "4096 * unat fs \<le> 2 ^ 32"
  shows "distinct (frames_of fs) \<and> (\<forall>a \<in> set (frames_of fs). unat a + unat fs \<le> 4096 * unat fs) \<and>
    filled (rx_trace s) @ in_hand (rx_pc s) = frames_of fs @ taken (rx_trace s) \<and>
    submitted (rx_trace s) = length (filled (rx_trace s)) \<and>
    packet_count s = of_nat (length (taken (rx_trace s))) \<and>
    released_n (rx_trace s) + 4096 \<le> length (filled (rx_trace s)) \<and>
    (\<forall>c. rx_pc s = Exited c \<longrightarrow> in_hand (rx_pc s) = [] \<and>
       peeked (rx_trace s) = released_n (rx_trace s) \<and> length (taken (rx_trace s)) = released_n (rx_trace s) \<and>
       (\<exists>evs. rx_trace s = evs @ [Socket_delete, Umem_delete, Free_buffer]) \<and>
       (\<forall>t. rx_step\<^sup>*\<^sup>* s t \<longrightarrow> rx_trace t = rx_trace s))"
proof -
  have inv: "rx_inv (frames_of fs) s" and ex: "exit_inv all_set s"
    using reachable_inv [OF assms(1,2)] by auto
  have "length (filled (rx_trace s) @ in_hand (rx_pc s)) = 4096 + length (taken (rx_trace s))"
    using inv by (simp add: rx_inv_def frames_of_def)
  then have "released_n (rx_trace s) + 4096 \<le> length (filled (rx_trace s))"
    using inv by (auto simp: rx_inv_def split: prod.splits)
  moreover have "in_hand (rx_pc s) = [] \<and>
      peeked (rx_trace s) = released_n (rx_trace s) \<and> length (taken (rx_trace s)) = released_n (rx_trace s) \<and>
      (\<exists>evs. rx_trace s = evs @ [Socket_delete, Umem_delete, Free_buffer]) \<and>
      (\<forall>t. rx_step\<^sup>*\<^sup>* s t \<longrightarrow> rx_trace t = rx_trace s)" if e: "rx_pc s = Exited c" for c
  proof -
    have "in_hand (rx_pc s) = []" "peeked (rx_trace s) = released_n (rx_trace s)"
      "length (taken (rx_trace s)) = released_n (rx_trace s)"
      using inv by (simp_all add: e rx_inv_def)
    moreover have "\<exists>evs. rx_trace s = evs @ [Socket_delete, Umem_delete, Free_buffer]"
      using ex by (simp add: e exit_inv_def zereh_cleanup_xsk_def all_set_def)
    ultimately show ?thesis using rx_done.reached_inv [of s s c] e by blast
  qed
  ultimately show ?thesis
    using frames_distinct [OF assms(3,4)] inv unfolding rx_inv_def by blast
qed

theorem rx_frames_conserved_witness:
  "\<exists>s. rx_reachable 4096 sample_results [''eth0'', ''0''] s \<and> in_hand (rx_pc s) = [8192] \<and>
     filled (rx_trace s) @ [8192] = frames_of 4096 @ taken (rx_trace s)"
proof -
  obtain s where s: "rx_reachable 4096 sample_results [''eth0'', ''0''] s" "rx_pc s = Reserving 0 1 7 8192"
    using sample_rx_run by blast
  then show ?thesis using rx_frames_conserved [OF s(1) sample_ready] by (intro exI [of _ s]) simp
qed

text \<open>
  (C38) The receiver stops when it is told to: once the signal handler has run, no run polls
  again, at most the batch in progress (or one that is about to be taken) is finished, and
  from every state that is not final a step towards the end exists, so that only a fill
  ring that stays full for ever can keep it from ending.
\<close>

theorem rx_stops:
  assumes "rx_reachable fs res (ifname # queue # rest) s" and "ready res" and "g_stop s"
  shows "(\<forall>t. rx_step\<^sup>*\<^sup>* s t \<longrightarrow> polls (rx_trace t) = polls (rx_trace s) \<and> work (rx_pc t) \<le> work (rx_pc s)) \<and>
    (\<forall>t u. rx_step\<^sup>*\<^sup>* s t \<longrightarrow> rx_step t u \<longrightarrow> work (rx_pc u) < work (rx_pc t) \<or> rx_pc u = rx_pc t) \<and>
    (\<forall>t. rx_step\<^sup>*\<^sup>* s t \<longrightarrow> (\<exists>c. rx_pc t = Exited c) \<or> (\<exists>u. rx_step t u \<and> work (rx_pc u) < work (rx_pc t))) \<and>
    (\<exists>t c. rx_step\<^sup>*\<^sup>* s t \<and> rx_pc t = Exited c)"
proof -
  have inv: "rx_inv (frames_of fs) s" using reachable_inv [OF assms(1,2)] by simp
  note runs = rx_stopping.reached_inv [of s s, OF conjI [OF refl conjI [OF assms(3) inv]]]
  show ?thesis
    using runs stopped_step stopped_progress stopped_can_exit [OF assms(3) inv] by metis
qed

theorem rx_stops_witness:
  "\<exists>s t c. rx_pc s = Reserving 0 1 7 8192 \<and> rx_step\<^sup>*\<^sup>* s t \<and> rx_pc t = Exited c \<and> polls (rx_trace t) = polls (rx_trace s)"
proof -
  obtain s where s: "rx_reachable 4096 sample_results [''eth0'', ''0''] s" "g_stop s" "rx_pc s = Reserving 0 1 7 8192"
    using sample_rx_run by blast
  then show ?thesis using rx_stops [OF s(1) sample_ready s(2)] by metis
qed

text \<open>
  A failed start leaves nothing behind: with too few arguments nothing is done, and a
  setup that fails at any of its calls ends with exit status 1 after freeing the buffer and
  deleting exactly the memory area and the socket that had been created.
\<close>

lemma rx_failed_start:
  assumes "\<not> ready res"
  shows "rx_pc (rx_main fs res (ifname # queue # rest)) = Exited 1 \<and>
    (let tr = rx_trace (rx_main fs res (ifname # queue # rest)) in
       Free_buffer \<in> set tr \<and> (Umem_delete \<in> set tr \<longleftrightarrow> Umem_create 0 \<in> set tr) \<and>
       (Socket_delete \<in> set tr \<longleftrightarrow> (\<exists>q. Socket_create ifname q 0 \<in> set tr)) \<and> filled tr = [])"
  using assms
  by (auto simp: rx_main_def rx_start_def zereh_init_xsk_def zereh_cleanup_xsk_def ready_def Let_def
      simp del: fill_loop.simps split: if_splits)

end
