(* ===== verification/Zereh_Mock.thy ===== *)
theory Zereh_Mock
  imports Zereh_Seed
begin

text \<open>
  The mock DNS server (\<open>apps/mock_dns_server.c\<close>), which stands behind the router in the
  tests: it binds a UDP port and prints one line for every datagram.

  The results of \<open>socket\<close>, \<open>bind\<close> and of the successive calls of \<open>recvfrom\<close> are
  parameters. \<open>recvfrom\<close> blocks, so a finite list of results describes a run up to the call
  it is blocked in: the return value is then \<open>None\<close>. \<open>inet_ntop\<close> is modelled after its
  specification. Messages on the standard error are left out.
\<close>

section \<open>Definitions\<close>

abbreviation (input) "INET_ADDRSTRLEN \<equiv> (16 :: nat)"

text \<open>A datagram has its length, the four octets and the port (network order) of its source.\<close>

datatype recv_result =
    Datagram nat u8 u8 u8 u8 u16
  | Recv_error int

datatype mock_event =
    Socket_call int
  | Bind_call u16 int
  | Printed string
  | Close_call

text \<open>\<open>inet_ntop (AF_INET, ...)\<close> fails when the text and its NUL do not fit.\<close>

definition inet_ntop4 :: "u8 \<Rightarrow> u8 \<Rightarrow> u8 \<Rightarrow> u8 \<Rightarrow> nat \<Rightarrow> string option" where
  "inet_ntop4 a b c d n = (let s = quad_text (unat a) (unat b) (unat c) (unat d) in
     if length s < n then Some s else None)"

definition packet_line :: "nat \<Rightarrow> u8 \<Rightarrow> u8 \<Rightarrow> u8 \<Rightarrow> u8 \<Rightarrow> u16 \<Rightarrow> string" where
  "packet_line n a b c d sin_port = (
     let ip = (case inet_ntop4 a b c d INET_ADDRSTRLEN of Some s \<Rightarrow> s | None \<Rightarrow> '''') in
     ''mock_dns_server packet: bytes='' @ dec_of n @ '' from='' @ ip @ '':'' @ dec_of (unat (bpf_ntohs sin_port)) @
     [CHR 0x0A])"

fun recv_loop :: "recv_result list \<Rightarrow> int option \<times> mock_event list" where
  "recv_loop [] = (None, [])"
| "recv_loop (Recv_error errno # rs) = (if errno = 4 then recv_loop rs else (Some 0, [Close_call]))"
| "recv_loop (Datagram n a b c d sin_port # rs) =
     (case recv_loop rs of (r, evs) \<Rightarrow> (r, Printed (packet_line n a b c d sin_port) # evs))"

text \<open>\<open>main\<close>, on the arguments after the program name\<close>

definition mock_main :: "string list \<Rightarrow> int \<Rightarrow> int \<Rightarrow> recv_result list \<Rightarrow> int option \<times> mock_event list" where
  "mock_main args fd bound rs = (
     let port = (case args of [] \<Rightarrow> 5302 | arg # _ \<Rightarrow> (ucast (fst (strtoul10 arg)) :: u16)) in
     if fd < 0 then (Some 1, [Socket_call fd])
     else if bound \<noteq> 0 then (Some 1, [Socket_call fd, Bind_call (bpf_htons port) bound, Close_call])
     else case recv_loop rs of (r, evs) \<Rightarrow>
       (r, [Socket_call fd, Bind_call (bpf_htons port) bound,
            Printed (''mock_dns_server listening on UDP '' @ dec_of (unat port) @ [CHR 0x0A])] @ evs))"

section \<open>Lemmas\<close>

text \<open>The text of an address always fits the buffer, so it is never empty, and reads back.\<close>

lemma octet_le: "unat (x :: u8) \<le> 255"
proof -
  have "unat x < 2 ^ LENGTH(8)" by (rule unsigned_less)
  then show ?thesis by simp
qed

lemma inet_ntop4_fits: "inet_ntop4 a b c d INET_ADDRSTRLEN = Some (quad_text (unat a) (unat b) (unat c) (unat d))"
proof -
  have "length (dec_of (unat x)) \<le> 3" for x :: u8
    by (intro length_dec_of_le le_less_trans [OF octet_le]) simp
  from this [of a] this [of b] this [of c] this [of d] show ?thesis
    by (simp add: inet_ntop4_def Let_def quad_text_def)
qed

lemma inet_ntop4_pton4:
  "inet_ntop4 a b c d INET_ADDRSTRLEN = Some s \<Longrightarrow> inet_pton4 s = Some [unat a, unat b, unat c, unat d]"
  by (auto simp: inet_ntop4_fits inet_pton4_quad octet_le)

text \<open>Exactly the datagrams before the first error other than \<open>EINTR\<close> are printed, in order.\<close>

fun ends_loop :: "recv_result \<Rightarrow> bool" where
  "ends_loop (Recv_error errno) = (errno \<noteq> 4)"
| "ends_loop (Datagram n a b c d p) = False"

fun line_of_result :: "recv_result \<Rightarrow> string option" where
  "line_of_result (Recv_error errno) = None"
| "line_of_result (Datagram n a b c d p) = Some (packet_line n a b c d p)"

lemma recv_loop_spec:
  "recv_loop rs = (if list_ex ends_loop rs then Some 0 else None,
     map Printed (List.map_filter line_of_result (takeWhile (\<lambda>r. \<not> ends_loop r) rs)) @
     (if list_ex ends_loop rs then [Close_call] else []))"
  by (induction rs rule: recv_loop.induct) (simp_all add: List.map_filter_simps)

text \<open>The descriptor is closed exactly when the server has ended after opening it, as the last step.\<close>

lemma mock_closes:
  assumes "0 \<le> fd"
  shows "fst (mock_main args fd bound rs) \<noteq> None \<longleftrightarrow> Close_call \<in> set (snd (mock_main args fd bound rs))"
    and "Close_call \<in> set (snd (mock_main args fd bound rs)) \<Longrightarrow>
      last (snd (mock_main args fd bound rs)) = Close_call \<and> Close_call \<notin> set (butlast (snd (mock_main args fd bound rs)))"
proof -
  show "fst (mock_main args fd bound rs) \<noteq> None \<longleftrightarrow> Close_call \<in> set (snd (mock_main args fd bound rs))"
    using assms by (auto simp: mock_main_def Let_def recv_loop_spec)
  show "last (snd (mock_main args fd bound rs)) = Close_call \<and> Close_call \<notin> set (butlast (snd (mock_main args fd bound rs)))"
    if "Close_call \<in> set (snd (mock_main args fd bound rs))"
    using that assms by (auto simp: mock_main_def Let_def recv_loop_spec butlast_append split: if_splits)
qed

end
