(* ===== verification/Spec2Isabelle.thy ===== *)
theory Spec2Isabelle
  imports Zereh_Main Zereh_Rx Zereh_Mock
begin

text \<open>
  A verification of Zereh, an eBPF/XDP router and filter for DNS.

  \<^bold>\<open>The program.\<close> The control plane (\<open>src/control\<close>) reads a YAML document into a
  configuration, hashes the route domains, generates the source of an XDP program from a
  template, compiles it and loads it, seeding the BPF maps and replacing a running program.
  The data plane (\<open>src/xdp\<close>) parses each packet, applies global filters to DNS queries,
  selects a route by the hash of the name (a generated \<open>switch\<close>) or by a suffix rule,
  applies the route's filters and redirects, rewrites, tail-calls, passes or drops. A user
  space receiver (\<open>src/apps/zereh_rx.c\<close>) takes packets from an AF_XDP socket.

  \<^bold>\<open>The theories\<close>, in the order of their imports.
  \<^item> \<open>Zereh_Prelude\<close>: machine words, results (\<open>Ret\<close>, \<open>Err\<close> for a C error
    return, \<open>Fault\<close> for an access outside an object), checked loads and stores.
  \<^item> \<open>Zereh_Libc\<close>: the functions of the C library the sources use, and sequences of
    statements that may fail.
  \<^item> \<open>Zereh_Config\<close> (\<open>config.h\<close>, \<open>config.c\<close>): enums as datatypes, the two structs as
    records, the defaults, and \<open>config_wf\<close>, the bounds that the later stages rely on.
  \<^item> \<open>Zereh_Hash\<close> (\<open>hash.c\<close>): normalisation, FNV-1a, SipHash-2-4.
  \<^item> \<open>Zereh_Dns_Parser\<close> (\<open>dns_parser.h\<close>): both packet parsers, on packets as byte lists.
  \<^item> \<open>Zereh_Checksum\<close>, \<open>Zereh_Filters\<close>, \<open>Zereh_Router\<close> (\<open>xdp_template.c\<close>): checksum
    updates; hash, pattern, proof-of-work, Bloom, rate and type filters; global filters, local
    delivery, dispatch and the program \<open>xdp_router\<close>. \<open>route_body\<close>, \<open>route_cases\<close> and
    \<open>fallback_rules\<close> are what the generated text does when it runs.
  \<^item> \<open>Zereh_Codegen\<close> (\<open>codegen.c\<close>): string builder, escaping, substitution, generated text.
  \<^item> \<open>Zereh_Yaml\<close> (\<open>yaml_parser.c\<close>): the whole parser over a loaded document.
  \<^item> \<open>Zereh_Seed\<close>, \<open>Zereh_Loader\<close> (\<open>loader.c\<close>): the keys and words seeded; seeding,
    attaching, swapping and detaching as computations on the history of system calls.
  \<^item> \<open>Zereh_Io\<close> (\<open>codegen.c\<close>, \<open>loader.c\<close>): file access and log lines.
  \<^item> \<open>Zereh_Main\<close> (\<open>main.c\<close>, \<open>compiler.c\<close>): the command line and the run of \<open>clang\<close>.
  \<^item> \<open>Zereh_Rx\<close> (\<open>zereh_rx.c\<close>): setup, the receive loop as a step relation, cleanup.
  \<^item> \<open>Zereh_Mock\<close> (\<open>mock_dns_server.c\<close>): the server the tests put behind the router.
  \<^item> this theory: properties of the components together.

  \<^bold>\<open>Interfaces.\<close> \<open>name_pattern\<close> (prefix and suffix tests), \<open>bucketed_token\<close> (proof of
  work and Bloom filter over time buckets), \<open>qname_hash\<close> (the two hashes, on both planes),
  \<open>uint_parser\<close> (the three widths of numbers), \<open>text_builder\<close> (the two append operations)
  and \<open>step_invariant\<close> (the receive loop) are locales, each interpreted on the program's own
  functions.

  \<^bold>\<open>What is shown.\<close> Parsers: memory safety on every packet, a round trip with an encoder,
  and that nothing else is accepted. Filters: each test has its exact meaning, the rate
  limiter is exact over every run, both planes compute the same hash. Router: total on every
  packet, with the exact verdict for queries and for all other traffic; rewriting keeps the
  checksums. Configuration: an accepted document gives a well-formed configuration whose
  routes are those of the document. Generator: buffers are respected, its loop ends, the
  generated text read back as C has the route's hash, strings and numbers, and a template of
  texts and placeholders becomes the texts with the values in place of the placeholders. Loader:
  the program is swapped only after complete seeding, resources are released on every path, and
  detaching makes exactly the calls it has to. Command
  line: the kernel is touched only when everything before succeeded. Receiver: no frame is
  lost or used twice, and it stops when told to. Together: the loaded program implements
  the routing policy of the document (\<open>router_implements_policy\<close>), and the blacklist of the
  document is what the program enforces (\<open>blacklist_end_to_end\<close>). Limits of the program
  are proved as well: names of 32 labels are passed unfiltered
  (\<open>many_labels_bypass_filters\<close>), suffix rules need no label boundary and are case-sensitive
  in the domain.

  \<^bold>\<open>Modelling decisions.\<close> Loops of the data plane have constant bounds and are recursions on
  the iterations left; the other loops are recursions with a termination proof, so nothing
  needs fuel. The exception is the growth loop of the string builder: its sizes wrap at 64 bits
  (\<open>size_t\<close>) and it need not end, so it is a \<open>partial_function (option)\<close>; it ends for every
  text below \<open>2 ^ 63\<close> characters, a bound that an accepted configuration and a template below
  256 MiB never reach (\<open>chain_of_config_yields\<close>). Integers are words of the width in the source;
  other sizes of objects in memory are natural numbers. Stores that the code bounds itself are
  checked against the size of the buffer and are a \<open>Fault\<close> outside it: the name buffer of the
  packet parser, the packet, the builders' buffers, the compiler's argument array, the buffers
  for the normalised domain, the pin path and the sanitised log message, and the Bloom words.
  Copies by \<open>snprintf\<close> are bounded by that function. A C array with a counter is a list. The
  receive loop may run for ever; it is a step relation, and its properties hold in every
  reachable state. The kernel, libbpf, libyaml, libxdp and the C library's input and output are
  parameters: their results are arbitrary, except where a theorem names what it assumes. Null
  pointer guards on arguments that are never null are left out.

  \<^bold>\<open>Not modelled.\<close> The variants for builds without libyaml, libbpf or libxdp; the reading of
  YAML text by libyaml; the content of messages on the standard error; the compiler and the
  verifier (the meaning of the generated text is given by \<open>Zereh_Router\<close>);
  concurrency between CPUs,
  which share no state the program writes (the rate map is per CPU).
\<close>

section \<open>The routing policy\<close>

text \<open>
  What a configuration promises, on names: the first route whose domain, without a trailing
  dot and in lower case, is the query's name, else the first route whose domain as written
  is a suffix of the name.
\<close>

definition names_query :: "bytes \<Rightarrow> zereh_route \<Rightarrow> bool" where
  "names_query q r \<longleftrightarrow> bytes_of (map c_tolower (strip_dot (r_domain r))) = q"

definition ends_query :: "bytes \<Rightarrow> zereh_route \<Rightarrow> bool" where
  "ends_query q r \<longleftrightarrow> length (r_domain r) \<le> 127 \<and> suffix (bytes_of (r_domain r)) q"

definition policy_route :: "zereh_route list \<Rightarrow> bytes \<Rightarrow> (u32 \<times> zereh_route) option" where
  "policy_route routes q = (case first_rule (names_query q) 0 routes of
     Some x \<Rightarrow> Some x | None \<Rightarrow> first_rule (ends_query q) 0 routes)"

text \<open>The planes agree on the hash of a configured name, whichever algorithm is configured.\<close>

lemma planes_agree_config:
  assumes "meta_wf m" and "length d \<le> 255" and "qname_of m = bytes_of (map c_tolower (strip_dot d))"
  shows "zereh_route_hash (k_hash_algo (consts_of_config cfg)) m = zereh_hash_domain d (c_hash_algo cfg)"
  using fnv_hash.planes_agree [OF assms] sip_hash.planes_agree [OF assms]
  by (simp add: consts_of_config_def zereh_hash_domain_def)

lemma parsed_domain_length: "zereh_parse_config_yaml y = (cfg, True) \<Longrightarrow> r \<in> set (c_routes cfg) \<Longrightarrow> length (r_domain r) \<le> 255"
  using parsed_wf [of y cfg]
  by (auto simp: config_wf_def list_all_iff route_wf_def route_buffers_ok_def fits_def)

text \<open>Without a collision on the query's hash, the generated code selects by name.\<close>

lemma select_route_policy:
  assumes m: "meta_wf m" and len: "\<And>r. r \<in> set (c_routes cfg) \<Longrightarrow> length (r_domain r) \<le> 255"
    and hash: "\<And>r. r \<in> set (c_routes cfg) \<Longrightarrow> r_hash r = zereh_hash_domain (r_domain r) (c_hash_algo cfg)"
    and nc: "\<forall>r \<in> set (c_routes cfg). r_hash r = zereh_route_hash (k_hash_algo (consts_of_config cfg)) m \<longrightarrow> names_query (qname_of m) r"
  shows "select_route (zereh_route_hash (k_hash_algo (consts_of_config cfg)) m) m (c_routes cfg) =
    policy_route (c_routes cfg) (qname_of m)"
proof -
  let ?h = "zereh_route_hash (k_hash_algo (consts_of_config cfg)) m"
  have "first_rule (\<lambda>r. r_hash r = ?h) 0 (c_routes cfg) = first_rule (names_query (qname_of m)) 0 (c_routes cfg)"
  proof (rule first_rule_cong)
    fix r assume r: "r \<in> set (c_routes cfg)"
    show "(r_hash r = ?h) = names_query (qname_of m) r"
      using planes_agree_config [OF m len [OF r], of cfg] hash [OF r] nc r
      by (auto simp: names_query_def)
  qed
  moreover have "fallback_rules m 0 (c_routes cfg) = first_rule (ends_query (qname_of m)) 0 (c_routes cfg)"
  proof -
    have "meta_buf_ok m" using m by (simp add: meta_wf_def)
    then have "fallback_rules m 0 (c_routes cfg) = first_rule (fallback_applies m) 0 (c_routes cfg)"
      using len by (intro fallback_rules_first) (auto simp: list_all_iff)
    also have "\<dots> = first_rule (ends_query (qname_of m)) 0 (c_routes cfg)"
      by (rule first_rule_cong) (simp add: fallback_applies_def ends_query_def)
    finally show ?thesis .
  qed
  ultimately show ?thesis by (simp add: select_route_def policy_route_def route_cases_first cong: option.case_cong)
qed

section \<open>The blacklist\<close>

lemma lpm_updates_of_seeding:
  assumes "lb_find_map lb ''ip_blacklist'' = Some fd" and "filter is_update p = seed_calls lb cfg"
  shows "(\<exists>v. Map_update_lpm fd key v \<in> set p) \<longleftrightarrow> (\<exists>cidr \<in> set (c_blacklist cfg). zereh_parse_cidr_v4 cidr = Some key)"
proof -
  have w: "Map_update_lpm fd' key v \<notin> set (word_updates fd2 i ws)" for fd' v fd2 i ws
    by (induction ws arbitrary: i) auto
  have b: "Map_update_lpm fd key v \<in> set (blacklist_updates fd cs) \<longleftrightarrow>
      v = 1 \<and> (\<exists>cidr \<in> set cs. zereh_parse_cidr_v4 cidr = Some key)" for v cs
    by (induction cs) (auto simp: blacklist_updates_def List.map_filter_simps split: option.splits)
  have "Map_update_lpm fd key v \<in> set p \<longleftrightarrow> Map_update_lpm fd key v \<in> set (filter is_update p)" for v by simp
  also have "\<dots> v \<longleftrightarrow> v = 1 \<and> (\<exists>cidr \<in> set (c_blacklist cfg). zereh_parse_cidr_v4 cidr = Some key)" for v
    unfolding assms(2)
    using w b by (auto simp: seed_calls_def assms(1) prog_updates_def split: option.splits)
  finally show ?thesis by blast
qed

text \<open>Apart from the global filters the program does not look at the blacklist.\<close>

lemma route_body_ignores_blacklist:
  "route_body cs (env\<lparr>env_ip_blacklist := f\<rparr>) pkt iph udp rm m h i r = route_body cs env pkt iph udp rm m h i r"
proof -
  have "route_action (env\<lparr>env_ip_blacklist := f\<rparr>) pkt iph udp r = route_action env pkt iph udp r"
    by (cases "r_target r") (simp_all add: route_action_def)
  then show ?thesis by (simp add: route_body_def route_filters_def split_beta cong: if_cong)
qed

lemma dispatch_ignores_blacklist:
  "zereh_dispatch cs routes (env\<lparr>env_ip_blacklist := f\<rparr>) pkt iph udp rm m = zereh_dispatch cs routes env pkt iph udp rm m"
  by (simp add: zereh_dispatch_def route_body_ignores_blacklist Let_def cong: option.case_cong)

text \<open>A key of 32 bits covers its own address only.\<close>

lemma covers_host: "lpm_covers \<lparr>k_prefixlen = 32, k_addr = b\<rparr> a \<longleftrightarrow> a = b"
proof
  assume c: "lpm_covers \<lparr>k_prefixlen = 32, k_addr = b\<rparr> a"
  show "a = b"
  proof (rule bit_word_eqI)
    fix n assume n: "n < LENGTH(32)"
    define r where "r = 7 - n mod 8"
    have r: "r < 8" "7 - r = n mod 8" by (simp_all add: r_def less_imp_le)
    then have "(8 * (n div 8) + r) div 8 = n div 8" "(8 * (n div 8) + r) mod 8 = r" by simp_all
    then have i: "8 * ((8 * (n div 8) + r) div 8) + (7 - (8 * (n div 8) + r) mod 8) = n" using r(2) by simp
    have "n div 8 < 4" using n by simp
    then have "8 * (n div 8) + r < 32" using r(1) by simp
    then show "bit a n = bit b n" using c i by (auto simp: lpm_covers_def addr_bit_def)
  qed
qed (simp add: lpm_covers_def)

section \<open>The suffix rules\<close>

text \<open>
  Two consequences of how suffix rules are written. They compare the domain as it stands in the
  document with a name the parser has lower-cased, so a domain with an upper-case letter has
  no subdomains; and they do not look for a dot before the domain.
\<close>

lemma tolower_not_upper: "\<not> (65 \<le> zereh_ascii_tolower b \<and> zereh_ascii_tolower b \<le> 90)"
proof (cases "65 \<le> b \<and> b \<le> 90")
  case True
  then have "97 \<le> b + 32" by (simp add: word_le_nat_alt unat_word_ariths)
  then have "\<not> b + 32 \<le> 90" using order_trans [of 97 "b + 32" 90] by auto
  then show ?thesis using True by (simp add: zereh_ascii_tolower_def)
qed (auto simp: zereh_ascii_tolower_def)

lemma sep_text_not_upper: "b \<in> set (sep_text d ls) \<Longrightarrow> \<not> (65 \<le> b \<and> b \<le> 90)"
  by (induction d ls rule: sep_text.induct) (use tolower_not_upper in \<open>fastforce split: if_splits\<close>)+

lemma upper_case_domain_no_subdomain:
  assumes "dns_query pkt udp m" and "c \<in> set (r_domain r)" and "65 \<le> byte_of c" and "byte_of c \<le> 90"
  shows "\<not> ends_query (qname_of m) r"
proof
  assume "ends_query (qname_of m) r"
  then have b: "byte_of c \<in> set (qname_of m)"
    using assms(2) set_mono_suffix by (fastforce simp: ends_query_def bytes_of_def)
  obtain ls flags where "list_all label_ok ls" "ls \<noteq> []" "length (dotted ls) \<le> 255"
      "m = query_meta (m_dns_id m) flags ls (m_qtype m) (m_qclass m)"
    using assms(1) parse_dns_sound unfolding dns_query_def by metis
  then have "qname_of m = dotted ls" using query_meta_wf(2) dotted_nonempty by metis
  then show False using b sep_text_not_upper [of "byte_of c" False ls] assms(3,4) by simp
qed

lemma suffix_rule_ignores_label_boundary:
  "r_domain r = ''ex.com'' \<Longrightarrow> policy_route [r] (bytes_of ''evilex.com'') = Some (0, r)"
proof -
  have "suffix (bytes_of ''ex.com'') (bytes_of ''evil'' @ bytes_of ''ex.com'')" by (rule suffix_appendI) simp
  then show "r_domain r = ''ex.com'' \<Longrightarrow> policy_route [r] (bytes_of ''evilex.com'') = Some (0, r)"
    by (simp add: policy_route_def names_query_def ends_query_def strip_dot_def c_tolower_def bytes_of_def)
qed

lemma policy_route_ends:
  assumes "policy_route routes q = Some (i, r)"
  shows "r \<in> set routes \<and> (names_query q r \<or> ends_query q r)"
  using assms by (auto simp: policy_route_def first_rule_Some split: option.splits)

text \<open>A route's \<open>suffix_match\<close> that rejects a query leaves the rate state as it is.\<close>

lemma route_body_suffix_mismatch:
  assumes "meta_buf_ok m" and "length (r_suffix r) < 2 ^ 16" and "\<not> suffix (bytes_of (r_suffix r)) (qname_of m)"
  shows "route_body cs env pkt iph udp rm m h i r = Ret (Returned XDP_DROP, pkt, rm)"
proof -
  have "\<not> zereh_match_suffix (m_qname m) (m_qname_len m) (bytes_of (r_suffix r)) (of_nat (length (r_suffix r)))"
    using suffix_pattern.mtch_meta [OF assms(1), of "bytes_of (r_suffix r)"] assms(2,3) by simp
  then show ?thesis
    by (simp add: route_body_def route_filters_def zereh_apply_app_filters_def split_beta)
qed

section \<open>Properties\<close>

text \<open>
  (C1) The data plane implements the routing policy of the accepted configuration: for every
  document the parser accepts and every DNS query that does not collide (its hash is that
  of a route only if its name is the route's), the generated program drops what the global
  filters deny and otherwise runs the body of exactly the route the policy names, with the
  route's index, or applies the default action. Parser, hash of both planes, generator
  constants and dispatch are composed as in the program.
\<close>

theorem router_implements_policy:
  assumes "zereh_parse_config_yaml y = (cfg, True)" and "dns_query pkt udp m"
    and "\<forall>r \<in> set (c_routes cfg). r_hash r = zereh_route_hash (k_hash_algo (consts_of_config cfg)) m \<longrightarrow>
           names_query (qname_of m) r"
  shows "xdp_router (consts_of_config cfg) (c_routes cfg) env rm pkt =
    (if globally_denied (consts_of_config cfg) env pkt m then Ret (Returned XDP_DROP, pkt, rm)
     else case policy_route (c_routes cfg) (qname_of m) of
       Some (i, r) \<Rightarrow> route_body (consts_of_config cfg) env pkt 14 udp rm m
         (zereh_route_hash (k_hash_algo (consts_of_config cfg)) m) i r
     | None \<Rightarrow> Ret (Returned (k_default_action (consts_of_config cfg)), pkt, rm))"
proof -
  have "meta_wf m" using assms(2) parsed_meta_wf by (auto simp: dns_query_def)
  from select_route_policy [OF this parsed_domain_length [OF assms(1)] parsed_routes_hash [OF assms(1)] assms(3)]
  show ?thesis
    using xdp_router_query [OF assms(2)] by (simp add: dispatch_eq Let_def)
qed

theorem router_implements_policy_witness:
  "\<exists>cfg r. zereh_parse_config_yaml (Some (sample_doc, sample_doc 1)) = (cfg, True) \<and> c_routes cfg = [r] \<and>
     xdp_router (consts_of_config cfg) [r]
      \<lparr>env_ip_blacklist = \<lambda>k. None, env_pow_bloom = \<lambda>i. None, env_redirect_map = \<lambda>i f. 4, env_tail_call = \<lambda>i. False,
       env_clock = \<lparr>t_rate = 0, t_pow = 0, t_bloom = 0\<rparr>\<rparr> (\<lambda>i. None) sample_frame =
     route_body (consts_of_config cfg)
      \<lparr>env_ip_blacklist = \<lambda>k. None, env_pow_bloom = \<lambda>i. None, env_redirect_map = \<lambda>i f. 4, env_tail_call = \<lambda>i. False,
       env_clock = \<lparr>t_rate = 0, t_pow = 0, t_bloom = 0\<rparr>\<rparr> sample_frame 14 34 (\<lambda>i. None) sample_meta
       (zereh_route_hash (k_hash_algo (consts_of_config cfg)) sample_meta) 0 r"
proof -
  obtain r where r: "zereh_parse_config_yaml (Some (sample_doc, sample_doc 1)) = (zereh_config_init_defaults\<lparr>c_routes := [r]\<rparr>, True)"
    "r_domain r = ''Ab.c''" using sample_config by blast
  let ?cfg = "zereh_config_init_defaults\<lparr>c_routes := [r]\<rparr>"
  let ?env = "\<lparr>env_ip_blacklist = \<lambda>k. None, env_pow_bloom = \<lambda>i. None, env_redirect_map = \<lambda>i f. 4, env_tail_call = \<lambda>i. False,
       env_clock = \<lparr>t_rate = 0, t_pow = 0, t_bloom = 0\<rparr>\<rparr> :: bpf_env"
  have n: "names_query (qname_of sample_meta) r"
    by (simp add: names_query_def r(2) sample_meta_fields strip_dot_def c_tolower_def bytes_of_def byte_of_def)
  then have p: "policy_route (c_routes ?cfg) (qname_of sample_meta) = Some (0, r)" by (simp add: policy_route_def)
  have "\<not> globally_denied (consts_of_config ?cfg) ?env sample_frame sample_meta"
    by (simp add: globally_denied_def consts_of_config_def zereh_config_init_defaults_def length_sample_frame sample_meta_fields)
  then show ?thesis
    using router_implements_policy [OF r(1) sample_query, of ?env "\<lambda>i. None"] r(1) p n
    by (intro exI [of _ ?cfg] exI [of _ r]) simp
qed

text \<open>
  (C2) The blacklist works end to end: when the loader has reached an attaching call, the map
  holds the keys of the configured blocks and no others; so, with the lookup of a
  longest-prefix-match map (it finds an entry exactly if some key covers the address), a
  query whose source lies in a configured block is dropped unchanged, and for a source in
  no block the blacklist makes no difference.
\<close>

theorem blacklist_end_to_end:
  assumes "run_state (zereh_load_and_swap_xdp lb cfg ovr) [] = (ok, p @ c # q)" and "is_attach c"
    and "lb_find_map lb ''ip_blacklist'' = Some fd"
    and lpm: "\<And>a. env_ip_blacklist env \<lparr>k_prefixlen = 32, k_addr = a\<rparr> \<noteq> None \<longleftrightarrow>
      (\<exists>key v. Map_update_lpm fd key v \<in> set p \<and> lpm_covers key a)"
    and "dns_query pkt udp m" and "ld32 pkt 26 = Ret saddr"
  shows "if \<exists>cidr \<in> set (c_blacklist cfg). \<exists>key. zereh_parse_cidr_v4 cidr = Some key \<and> lpm_covers key saddr
    then xdp_router cs routes env rm pkt = Ret (Returned XDP_DROP, pkt, rm)
    else xdp_router cs routes env rm pkt = xdp_router cs routes (env\<lparr>env_ip_blacklist := (\<lambda>k. None)\<rparr>) rm pkt"
proof -
  obtain ext where "p @ c # q = [] @ ext" "attach_after_seeding lb (seed_calls lb cfg) [] ext"
    using runsD [OF runs_load_and_swap assms(1)] by blast
  then have "filter is_update p = seed_calls lb cfg" using assms(2) by (auto simp: attach_after_seeding_def)
  note upd = lpm_updates_of_seeding [OF assms(3) this]
  have hit: "env_ip_blacklist env \<lparr>k_prefixlen = 32, k_addr = saddr\<rparr> \<noteq> None \<longleftrightarrow>
      (\<exists>cidr \<in> set (c_blacklist cfg). \<exists>key. zereh_parse_cidr_v4 cidr = Some key \<and> lpm_covers key saddr)"
    unfolding lpm using upd by blast
  show ?thesis
  proof (cases "env_ip_blacklist env \<lparr>k_prefixlen = 32, k_addr = saddr\<rparr> \<noteq> None")
    case True
    then have "globally_denied cs env pkt m" using assms(6) by (auto simp: globally_denied_def)
    then show ?thesis using True hit xdp_router_query [OF assms(5)] by simp
  next
    case False
    then have "globally_denied cs (env\<lparr>env_ip_blacklist := (\<lambda>k. None)\<rparr>) pkt m = globally_denied cs env pkt m"
      using assms(6) by (simp add: globally_denied_def)
    then have "xdp_router cs routes env rm pkt = xdp_router cs routes (env\<lparr>env_ip_blacklist := (\<lambda>k. None)\<rparr>) rm pkt"
      using xdp_router_query [OF assms(5)] by (simp add: dispatch_ignores_blacklist)
    moreover have "\<not> (\<exists>cidr \<in> set (c_blacklist cfg). \<exists>key. zereh_parse_cidr_v4 cidr = Some key \<and> lpm_covers key saddr)"
      using False hit by simp
    ultimately show ?thesis by (simp only: if_False)
  qed
qed

text \<open>The kernel of \<open>fresh_run\<close>, with the lookup of the one host in its map.\<close>

theorem blacklist_end_to_end_witness:
  "xdp_router (consts_of_config zereh_config_init_defaults) [sample_route]
     \<lparr>env_ip_blacklist = \<lambda>k. if k_addr k = s_addr [10, 0, 0, 1] then Some 1 else None, env_pow_bloom = \<lambda>i. None,
      env_redirect_map = \<lambda>i f. 4, env_tail_call = \<lambda>i. False, env_clock = \<lparr>t_rate = 0, t_pow = 0, t_bloom = 0\<rparr>\<rparr>
     (\<lambda>i. None) sample_frame = Ret (Returned XDP_DROP, sample_frame, \<lambda>i. None)"
proof -
  let ?env = "\<lparr>env_ip_blacklist = \<lambda>k. if k_addr k = s_addr [10, 0, 0, 1] then Some 1 else None, env_pow_bloom = \<lambda>i. None,
      env_redirect_map = \<lambda>i f. 4, env_tail_call = \<lambda>i. False, env_clock = \<lparr>t_rate = 0, t_pow = 0, t_bloom = 0\<rparr>\<rparr> :: bpf_env"
  let ?cfg = "zereh_config_init_defaults\<lparr>c_blacklist := [quad_text 10 0 0 1]\<rparr>"
  let ?key = "\<lparr>k_prefixlen = 32, k_addr = s_addr [10, 0, 0, 1]\<rparr>"
  have log: "fresh_log = take 8 fresh_log @ Program_attach_xdp 3 2 # drop 9 fresh_log" by (simp add: fresh_log_def)
  have run: "run_state (zereh_load_and_swap_xdp fresh_kernel ?cfg None) [] =
      (True, take 8 fresh_log @ Program_attach_xdp 3 2 # drop 9 fresh_log)"
    by (subst log [symmetric]) (rule fresh_run)
  have "Map_update_lpm 7 key v \<in> set (take 8 fresh_log) \<longleftrightarrow> key = ?key \<and> v = 1" for key v
    by (auto simp: fresh_log_def)
  then have lpm: "env_ip_blacklist ?env \<lparr>k_prefixlen = 32, k_addr = a\<rparr> \<noteq> None \<longleftrightarrow>
      (\<exists>key v. Map_update_lpm 7 key v \<in> set (take 8 fresh_log) \<and> lpm_covers key a)" for a
    by (simp add: covers_host)
  have fd: "lb_find_map fresh_kernel ''ip_blacklist'' = Some 7" by (simp add: fresh_kernel_def)
  have saddr: "ld32 sample_frame 26 = Ret (s_addr [10, 0, 0, 1])"
    by (simp add: sample_frame_def dns_frame_def ld32_def ld16_def ld8_def s_addr_def be16_def nth_append)
  have cidr: "zereh_parse_cidr_v4 (quad_text 10 0 0 1) = Some ?key" by (rule parse_cidr_print(1)) simp_all
  show ?thesis
    using blacklist_end_to_end [OF run _ fd lpm sample_query saddr, of "consts_of_config zereh_config_init_defaults"
        "[sample_route]" "\<lambda>i. None"] cidr
    by (simp add: covers_host)
qed

text \<open>
  (C39) A route's \<open>suffix_match\<close> is a test on the whole name, like the rule that selects the
  route: if neither the pattern ends the route's domain nor the domain ends the pattern,
  the route drops every query it is selected for, and no query is charged to its rate limit.
  This is the case of the shipped configuration, whose route for \<open>t.example.com\<close> has the
  pattern \<open>-data\<close> and a comment that names like \<open>sensor1-data.t.example.com\<close> are let through.
\<close>

theorem suffix_match_shuts_route:
  assumes "dns_query pkt udp m"
    and "\<forall>r \<in> set (c_routes cfg). length (r_domain r) \<le> 255 \<and>
           r_hash r = zereh_hash_domain (r_domain r) (c_hash_algo cfg)"
    and "\<forall>r \<in> set (c_routes cfg). r_hash r = zereh_route_hash (k_hash_algo (consts_of_config cfg)) m \<longrightarrow>
           names_query (qname_of m) r"
    and "policy_route (c_routes cfg) (qname_of m) = Some (i, r)"
    and "map c_tolower (strip_dot (r_domain r)) = r_domain r" and "length (r_suffix r) \<le> 128"
    and "\<not> suffix (bytes_of (r_suffix r)) (bytes_of (r_domain r))"
    and "\<not> suffix (bytes_of (r_domain r)) (bytes_of (r_suffix r))"
  shows "xdp_router (consts_of_config cfg) (c_routes cfg) env rm pkt = Ret (Returned XDP_DROP, pkt, rm)"
proof -
  have m: "meta_wf m" using assms(1) parsed_meta_wf by (auto simp: dns_query_def)
  have "suffix (bytes_of (r_domain r)) (qname_of m)"
    using policy_route_ends [OF assms(4)] assms(5) by (auto simp: names_query_def ends_query_def)
  then have "\<not> suffix (bytes_of (r_suffix r)) (qname_of m)"
    using assms(7,8) suffix_same_cases by blast
  moreover have "meta_buf_ok m" using m by (simp add: meta_wf_def)
  ultimately have "route_body (consts_of_config cfg) env pkt 14 udp rm m h i r = Ret (Returned XDP_DROP, pkt, rm)" for h
    using assms(6) by (intro route_body_suffix_mismatch) auto
  then show ?thesis
    using select_route_policy [OF m, of cfg] assms(2,3,4) xdp_router_query [OF assms(1)]
    by (simp add: dispatch_eq Let_def)
qed

theorem suffix_match_shuts_route_witness:
  "xdp_router (consts_of_config (zereh_config_init_defaults\<lparr>c_routes := [sample_route\<lparr>r_suffix := ''-d''\<rparr>]\<rparr>))
      [sample_route\<lparr>r_suffix := ''-d''\<rparr>]
      \<lparr>env_ip_blacklist = \<lambda>k. None, env_pow_bloom = \<lambda>i. None, env_redirect_map = \<lambda>i f. 4, env_tail_call = \<lambda>i. False,
       env_clock = \<lparr>t_rate = 0, t_pow = 0, t_bloom = 0\<rparr>\<rparr> (\<lambda>i. None) sample_frame =
   Ret (Returned XDP_DROP, sample_frame, \<lambda>i. None)"
proof -
  let ?r = "sample_route\<lparr>r_suffix := ''-d''\<rparr>"
  let ?cfg = "zereh_config_init_defaults\<lparr>c_routes := [?r]\<rparr>"
  have n: "names_query (qname_of sample_meta) ?r"
    by (simp add: names_query_def sample_route_def sample_meta_fields strip_dot_def c_tolower_def bytes_of_def byte_of_def)
  have s: "\<not> suffix (bytes_of ''-d'') (bytes_of ''ab.c'')" "\<not> suffix (bytes_of ''ab.c'') (bytes_of ''-d'')"
    by (auto simp: suffix_def bytes_of_def byte_of_def append_eq_Cons_conv Cons_eq_append_conv)
  have "xdp_router (consts_of_config ?cfg) (c_routes ?cfg) env rm sample_frame =
      Ret (Returned XDP_DROP, sample_frame, rm)" for env rm
  proof (rule suffix_match_shuts_route [OF sample_query])
    show "policy_route (c_routes ?cfg) (qname_of sample_meta) = Some (0, ?r)" using n by (simp add: policy_route_def)
  qed (use n s in \<open>simp_all add: sample_route_def zereh_config_init_defaults_def strip_dot_def c_tolower_def\<close>)
  then show ?thesis by simp
qed

text \<open>
  (C40) The filters do not see every packet on port 53: a query name of 32 labels, which is
  legal, exceeds the parser's label bound, and the packet is passed before size, blacklist,
  opcode and truncation are looked at, whatever they say.
\<close>

theorem many_labels_bypass_filters:
  assumes "zereh_parse_eth_ipv4_udp pkt = Ret (eth, iph, udp)"
    and "list_all label_ok ls" and "length ls = 32" and "bytes_at pkt (udp + 20) (wire_labels ls)"
    and "ld16 pkt (udp + 4) = Ret ulen" and "udp + 20 + length (wire_labels ls) \<le> udp + unat (bpf_ntohs ulen)"
  shows "xdp_router cs routes env rm pkt = Ret (Returned XDP_PASS, pkt, rm)"
proof -
  have "zereh_parse_dns_query pkt udp = Err" by (rule parse_dns_too_many [OF assms(2-6)])
  then have "\<nexists>udp m. dns_query pkt udp m" using assms(1) by (auto simp: dns_query_def)
  then show ?thesis by (rule xdp_router_other)
qed

lemma dns_frame_parts:
  fixes i flags qd ls qt qc extra sport chk
  assumes "length macs = 12" "length iphdr = 8" "length check = 2" "length saddr = 4" "length daddr = 4" "length counts = 6"
  defines "payload \<equiv> dns_query_payload i flags qd counts ls qt qc extra"
  defines "f \<equiv> dns_frame macs iphdr check saddr daddr sport chk payload"
  shows "zereh_parse_eth_ipv4_udp f = Ret (0, 14, 34)" "ld16 f 38 = Ret (bpf_htons (of_nat (8 + length payload)))"
    "bytes_at f 54 (wire_labels ls)"
proof -
  have "bytes_at f 12 (be16 0x0800)" "f ! 14 = 0x45" "f ! 23 = 17" "42 \<le> length f"
    using assms(1-6) by (auto simp: f_def dns_frame_def bytes_at_def nth_append udp_header_def)
  then show "zereh_parse_eth_ipv4_udp f = Ret (0, 14, 34)" by (simp add: parse_eth_iff)
  show "ld16 f 38 = Ret (bpf_htons (of_nat (8 + length payload)))"
    using assms(1-6) by (intro ld16_be16) (auto simp: f_def dns_frame_def udp_header_def bytes_at_def)
  show "bytes_at f 54 (wire_labels ls)"
    using assms(1-6)
    by (auto simp: f_def payload_def dns_frame_def udp_header_def bytes_at_def dns_query_payload_def be16_def wire_name_def)
qed

text \<open>Thirty-two labels of one letter, from a blacklisted source.\<close>

definition many_labels_frame :: bytes where
  "many_labels_frame = dns_frame (replicate 12 0) (replicate 8 0) [0, 0] [10, 0, 0, 1] [10, 0, 0, 2] 4660 1
     (dns_query_payload 7 0x0100 1 [0,0,0,0,0,0] (replicate 32 [97]) 1 1 [])"

theorem many_labels_bypass_filters_witness:
  "xdp_router \<lparr>k_max_packet_size = 0, k_allowed_opcode_mask = 0, k_drop_truncated = 1, k_default_action = 1,
       k_hash_algo = 0, k_rate_state_entries = 1\<rparr> []
     \<lparr>env_ip_blacklist = \<lambda>k. Some 1, env_pow_bloom = \<lambda>i. None, env_redirect_map = \<lambda>i f. 4, env_tail_call = \<lambda>i. False,
       env_clock = \<lparr>t_rate = 0, t_pow = 0, t_bloom = 0\<rparr>\<rparr> (\<lambda>i. None) many_labels_frame
   = Ret (Returned XDP_PASS, many_labels_frame, \<lambda>i. None)"
proof (rule many_labels_bypass_filters [where ls = "replicate 32 [97]"])
  have hdr: "length (replicate 12 (0::u8)) = 12" "length (replicate 8 (0::u8)) = 8" "length [0::u8, 0] = 2"
    "length [10::u8, 0, 0, 1] = 4" "length [10::u8, 0, 0, 2] = 4" "length [0::u8, 0, 0, 0, 0, 0] = 6" by simp_all
  note parts = dns_frame_parts [OF hdr, where sport = 4660 and chk = 1 and i = 7 and flags = "0x0100" and qd = 1 and ls = "replicate 32 [97]" and qt = 1 and qc = 1 and extra = "[]", folded many_labels_frame_def]
  have len: "length (wire_labels (replicate n [97])) = 2 * n" for n by (induction n) simp_all
  show "zereh_parse_eth_ipv4_udp many_labels_frame = Ret (0, 14, 34)" by (rule parts)
  show "list_all label_ok (replicate 32 [97])" by (simp add: label_ok_def list_all_iff)
  show "bytes_at many_labels_frame (34 + 20) (wire_labels (replicate 32 [97]))" using parts(3) by simp
  show "ld16 many_labels_frame (34 + 4) = Ret (bpf_htons 89)"
    using parts(2) len [of 32] by (simp add: dns_query_payload_def wire_name_def)
  show "34 + 20 + length (wire_labels (replicate 32 [97])) \<le> 34 + unat (bpf_ntohs (bpf_htons 89))"
    using len [of 32] by simp
qed simp

end
